theory Spec2Isabelle
  imports Complex_Main "HOL-Library.Log_Nat"
begin

section \<open>JavaScript strings\<close>

text \<open>
  The editor component (\<^verbatim>\<open>TikZEditor\<close>) works on JavaScript strings with the built-in
  regular expressions, \<^verbatim>\<open>String.prototype.replace\<close>, \<^verbatim>\<open>trim\<close>, \<^verbatim>\<open>split\<close>,
  \<^verbatim>\<open>includes\<close>, \<^verbatim>\<open>parseFloat\<close> and \<^verbatim>\<open>Number.prototype.toFixed\<close>. A string is
  modelled as a \<^typ>\<open>string\<close>: a list of code units, restricted to the code units 0..255.
  The backslash cannot be written inside a HOL string literal, so it is the constant
  \<open>BS\<close>.
\<close>

abbreviation BS :: string where
  "BS \<equiv> [CHR 0x5C]"

text \<open>\<^verbatim>\<open>WhiteSpace\<close> and \<^verbatim>\<open>LineTerminator\<close> of ECMAScript among the code units 0..255:
  TAB, LF, VT, FF, CR, SP and NBSP. This is the class \<^verbatim>\<open>\s\<close> and what \<^verbatim>\<open>trim\<close> strips.\<close>

definition isWhiteSpace :: "char \<Rightarrow> bool" where
  "isWhiteSpace c =
     (c = CHR 0x09 \<or> c = CHR 0x0A \<or> c = CHR 0x0B \<or> c = CHR 0x0C \<or> c = CHR 0x0D \<or>
      c = CHR 0x20 \<or> c = CHR 0xA0)"

definition isLineTerminator :: "char \<Rightarrow> bool" where
  "isLineTerminator c = (c = CHR 0x0A \<or> c = CHR 0x0D)"

fun startsWith :: "string \<Rightarrow> string \<Rightarrow> bool" where
  "startsWith s [] = True"
| "startsWith [] (p # ps) = False"
| "startsWith (x # xs) (p # ps) = (x = p \<and> startsWith xs ps)"

text \<open>\<^verbatim>\<open>s.includes(sub)\<close>: \<open>sub\<close> occurs in \<open>s\<close> as a substring.\<close>

fun str_includes :: "string \<Rightarrow> string \<Rightarrow> bool" where
  "str_includes [] sub = (sub = [])"
| "str_includes (x # xs) sub = (startsWith (x # xs) sub \<or> str_includes xs sub)"

definition str_trim :: "string \<Rightarrow> string" where
  "str_trim s = rev (dropWhile isWhiteSpace (rev (dropWhile isWhiteSpace s)))"

text \<open>\<^verbatim>\<open>s.split(',')\<close> with a one-character separator: always at least one component.\<close>

fun str_split :: "char \<Rightarrow> string \<Rightarrow> string list" where
  "str_split d [] = [[]]"
| "str_split d (x # xs) =
     (if x = d then [] # str_split d xs
      else (case str_split d xs of [] \<Rightarrow> [[x]] | h # t \<Rightarrow> (x # h) # t))"

section \<open>Regular expressions\<close>

text \<open>
  The fragment of ECMAScript patterns (no flags but \<^verbatim>\<open>g\<close>, Annex B syntax) that is
  modelled: pattern characters, the identity escapes of syntax characters, \<^verbatim>\<open>\s\<close>,
  \<^verbatim>\<open>.\<close>, character classes with ranges and negation, capturing and non-capturing groups,
  alternation, the quantifiers \<^verbatim>\<open>*\<close>, \<^verbatim>\<open>+\<close>, \<^verbatim>\<open>?\<close> (greedy and lazy) and the
  assertions \<^verbatim>\<open>^\<close> and \<^verbatim>\<open>$\<close>. Every regular expression literal of the component lies
  in the fragment. A pattern built at run time that leaves it (braced quantifiers, other
  escapes, look-around, named groups) is reported as \<open>Unsupported\<close>: the model says
  nothing about it.
\<close>

datatype citem = IChar char | IRange char char | ISpace

datatype sym = CLit char | CSpace | CAny | CSet bool "citem list"

datatype rx =
    Eps
  | Sym sym
  | Bol
  | Eol
  | Seq rx rx
  | Alt rx rx
  | Star bool rx
  | Opt bool rx
  | Group nat rx

fun citem_matches :: "citem \<Rightarrow> char \<Rightarrow> bool" where
  "citem_matches (IChar a) c = (c = a)"
| "citem_matches (IRange a b) c = (of_char a \<le> (of_char c :: nat) \<and> (of_char c :: nat) \<le> of_char b)"
| "citem_matches ISpace c = isWhiteSpace c"

fun sym_matches :: "sym \<Rightarrow> char \<Rightarrow> bool" where
  "sym_matches (CLit a) c = (c = a)"
| "sym_matches CSpace c = isWhiteSpace c"
| "sym_matches CAny c = (\<not> isLineTerminator c)"
| "sym_matches (CSet neg items) c = (list_ex (\<lambda>i. citem_matches i c) items \<noteq> neg)"

text \<open>The capturing groups inside a term: they are reset when a quantifier starts a new
  iteration of the term.\<close>

fun groups_of :: "rx \<Rightarrow> nat list" where
  "groups_of (Seq a b) = groups_of a @ groups_of b"
| "groups_of (Alt a b) = groups_of a @ groups_of b"
| "groups_of (Star g a) = groups_of a"
| "groups_of (Opt g a) = groups_of a"
| "groups_of (Group k a) = k # groups_of a"
| "groups_of r = []"

type_synonym captures = "(nat \<times> string) list"

definition clear :: "rx \<Rightarrow> captures \<Rightarrow> captures" where
  "clear a c = filter (\<lambda>kv. fst kv \<notin> set (groups_of a)) c"

text \<open>
  The backtracking matcher. \<open>bt r n c s\<close> matches \<open>r\<close> at the start of \<open>s\<close>, a suffix of an
  input of length \<open>n\<close>, with the captures \<open>c\<close> made so far, and lists every way to match in
  the order in which ECMAScript's matcher tries them: the captures and the rest of the input
  after the match. The first element is the match that \<^verbatim>\<open>exec\<close> reports. An iteration of
  a quantified term that consumes nothing is rejected, as the specification's
  \<^verbatim>\<open>RepeatMatcher\<close> does.
\<close>

function bt :: "rx \<Rightarrow> nat \<Rightarrow> captures \<Rightarrow> string \<Rightarrow> (captures \<times> string) list" where
  "bt Eps n c s = [(c, s)]"
| "bt (Sym a) n c s = (case s of [] \<Rightarrow> [] | x # xs \<Rightarrow> if sym_matches a x then [(c, xs)] else [])"
| "bt Bol n c s = (if length s = n then [(c, s)] else [])"
| "bt Eol n c s = (if s = [] then [(c, s)] else [])"
| "bt (Seq a b) n c s = concat (map (\<lambda>m. bt b n (fst m) (snd m)) (bt a n c s))"
| "bt (Alt a b) n c s = bt a n c s @ bt b n c s"
| "bt (Star g a) n c s =
     (let more = concat (map (\<lambda>m. bt (Star g a) n (fst m) (snd m))
                   (filter (\<lambda>m. length (snd m) < length s) (bt a n (clear a c) s)))
      in if g then more @ [(c, s)] else (c, s) # more)"
| "bt (Opt g a) n c s =
     (let once = filter (\<lambda>m. length (snd m) < length s) (bt a n (clear a c) s)
      in if g then once @ [(c, s)] else (c, s) # once)"
| "bt (Group k a) n c s =
     map (\<lambda>m. ((k, take (length s - length (snd m)) s) # fst m, snd m)) (bt a n c s)"
  by pat_completeness auto
termination
  by (relation "measures [\<lambda>(r, n, c, s). size r, \<lambda>(r, n, c, s). length s]") auto


text \<open>
  The equations for \<open>Seq\<close> and \<open>Star\<close> rewrite under their own \<open>\<lambda>\<close>, so they are not
  simplification rules; \<open>bt_all\<close> names the continuation over a list of partial matches and
  gives equations that evaluate.
\<close>

declare bt.simps(5) [simp del]
declare bt.simps(7) [simp del]

definition bt_all :: "rx \<Rightarrow> nat \<Rightarrow> (captures \<times> string) list \<Rightarrow> (captures \<times> string) list" where
  "bt_all r n ms = concat (map (\<lambda>m. bt r n (fst m) (snd m)) ms)"

lemma bt_all_simps [simp, code]:
  "bt_all r n [] = []"
  "bt_all r n (m # ms) = bt r n (fst m) (snd m) @ bt_all r n ms"
  by (simp_all add: bt_all_def)

lemma bt_all_append [simp]:
  "bt_all r n (xs @ ys) = bt_all r n xs @ bt_all r n ys"
  by (simp add: bt_all_def)

lemma bt_Seq:
  "bt (Seq a b) n c s = bt_all b n (bt a n c s)"
  by (simp add: bt_all_def bt.simps(5))

lemma bt_Star:
  "bt (Star g a) n c s =
     (if g then bt_all (Star g a) n (filter (\<lambda>m. length (snd m) < length s) (bt a n (clear a c) s)) @ [(c, s)]
      else (c, s) # bt_all (Star g a) n (filter (\<lambda>m. length (snd m) < length s) (bt a n (clear a c) s)))"
  by (subst bt.simps(7)) (simp add: bt_all_def Let_def)

lemma bt_code [code]:
  "bt Eps n c s = [(c, s)]"
  "bt (Sym y) n c s = (case s of [] \<Rightarrow> [] | x # xs \<Rightarrow> if sym_matches y x then [(c, xs)] else [])"
  "bt Bol n c s = (if length s = n then [(c, s)] else [])"
  "bt Eol n c s = (if s = [] then [(c, s)] else [])"
  "bt (Seq a b) n c s = bt_all b n (bt a n c s)"
  "bt (Alt a b) n c s = bt a n c s @ bt b n c s"
  "bt (Star g a) n c s =
     (if g then bt_all (Star g a) n (filter (\<lambda>m. length (snd m) < length s) (bt a n (clear a c) s)) @ [(c, s)]
      else (c, s) # bt_all (Star g a) n (filter (\<lambda>m. length (snd m) < length s) (bt a n (clear a c) s)))"
  "bt (Opt g a) n c s =
     (if g then filter (\<lambda>m. length (snd m) < length s) (bt a n (clear a c) s) @ [(c, s)]
      else (c, s) # filter (\<lambda>m. length (snd m) < length s) (bt a n (clear a c) s))"
  "bt (Group k a) n c s =
     map (\<lambda>m. ((k, take (length s - length (snd m)) s) # fst m, snd m)) (bt a n c s)"
  by (simp_all add: Let_def bt_Star bt_Seq)

lemma bt_all_member:
  "(c', s') \<in> set (bt_all r n ms) \<longleftrightarrow> (\<exists>c1 s1. (c1, s1) \<in> set ms \<and> (c', s') \<in> set (bt r n c1 s1))"
  unfolding bt_all_def by force

section \<open>Compiling a pattern\<close>

text \<open>
  What can go wrong in the component: the \<^verbatim>\<open>RegExp\<close> constructor throws a
  \<^verbatim>\<open>SyntaxError\<close> on an ill-formed pattern, a method call on \<^verbatim>\<open>undefined\<close> throws a
  \<^verbatim>\<open>TypeError\<close>, and a \<^verbatim>\<open>while\<close> loop over \<^verbatim>\<open>exec\<close> never ends when a match is
  empty. \<open>Unsupported\<close> marks an input outside the modelled fragment.
\<close>

datatype error = SyntaxError | TypeError | NonTermination | Unsupported

record regexp =
  rx_body :: rx
  rx_groups :: nat

fun mk_seq :: "rx list \<Rightarrow> rx" where
  "mk_seq [] = Eps"
| "mk_seq [t] = t"
| "mk_seq (t # ts) = Seq t (mk_seq ts)"

fun mk_alt :: "rx list \<Rightarrow> rx" where
  "mk_alt [] = Eps"
| "mk_alt [a] = a"
| "mk_alt (a # as) = Alt a (mk_alt as)"

text \<open>The parser's state: the enclosing groups that are still open (for each, its finished
  alternatives, the terms of its current alternative and its capture number), the finished
  alternatives and the terms of the innermost open group (both latest first), the number of
  capturing groups opened so far, whether the last term may take a quantifier, and the
  character class being read, if any.\<close>

record pstate =
  stack :: "(rx list \<times> rx list \<times> nat option) list"
  alts :: "rx list"
  terms :: "rx list"
  ngroups :: nat
  quantifiable :: bool
  cls :: "(bool \<times> citem list) option"

definition init_pstate :: pstate where
  "init_pstate = \<lparr>stack = [], alts = [], terms = [], ngroups = 0, quantifiable = False, cls = None\<rparr>"

definition close_group :: "rx list \<Rightarrow> rx list \<Rightarrow> rx" where
  "close_group as ts = mk_alt (rev (mk_seq (rev ts) # as))"

definition push_term :: "rx \<Rightarrow> bool \<Rightarrow> pstate \<Rightarrow> pstate" where
  "push_term t q st = st\<lparr>terms := t # terms st, quantifiable := q\<rparr>"

definition quantify :: "char \<Rightarrow> bool \<Rightarrow> pstate \<Rightarrow> pstate" where
  "quantify q greedy st =
     (case terms st of
        [] \<Rightarrow> st
      | t # ts \<Rightarrow>
          st\<lparr>terms := (if q = CHR ''*'' then Star greedy t
                        else if q = CHR ''+'' then Seq t (Star greedy t)
                        else Opt greedy t) # ts,
             quantifiable := False\<rparr>)"

definition isAlnum :: "char \<Rightarrow> bool" where
  "isAlnum c =
     (let k = (of_char c :: nat)
      in (48 \<le> k \<and> k \<le> 57) \<or> (65 \<le> k \<and> k \<le> 90) \<or> (97 \<le> k \<and> k \<le> 122))"

fun parse_pattern :: "string \<Rightarrow> pstate \<Rightarrow> error + regexp" where
  "parse_pattern [] st =
     (if cls st \<noteq> None \<or> stack st \<noteq> [] then Inl SyntaxError
      else Inr \<lparr>rx_body = close_group (alts st) (terms st), rx_groups = ngroups st\<rparr>)"
| "parse_pattern (c # cs) st =
     (case cls st of
        Some (neg, items) \<Rightarrow>
          (if c = CHR '']'' then
             parse_pattern cs (push_term (Sym (CSet neg (rev items))) True (st\<lparr>cls := None\<rparr>))
           else if c = CHR 0x5C then
             (case cs of
                [] \<Rightarrow> Inl SyntaxError
              | e # cs' \<Rightarrow>
                  if e = CHR ''s'' then parse_pattern cs' (st\<lparr>cls := Some (neg, ISpace # items)\<rparr>)
                  else if isAlnum e then Inl Unsupported
                  else parse_pattern cs' (st\<lparr>cls := Some (neg, IChar e # items)\<rparr>))
           else if c = CHR ''-'' then
             (case items of
                IChar a # items' \<Rightarrow>
                  (case cs of
                     [] \<Rightarrow> Inl SyntaxError
                   | b # cs' \<Rightarrow>
                       if b = CHR '']'' then parse_pattern cs (st\<lparr>cls := Some (neg, IChar c # items)\<rparr>)
                       else if b = CHR 0x5C then Inl Unsupported
                       else if (of_char a :: nat) \<le> of_char b then
                         parse_pattern cs' (st\<lparr>cls := Some (neg, IRange a b # items')\<rparr>)
                       else Inl SyntaxError)
              | _ \<Rightarrow> parse_pattern cs (st\<lparr>cls := Some (neg, IChar c # items)\<rparr>))
           else parse_pattern cs (st\<lparr>cls := Some (neg, IChar c # items)\<rparr>))
      | None \<Rightarrow>
          (if c = CHR 0x5C then
             (case cs of
                [] \<Rightarrow> Inl SyntaxError
              | e # cs' \<Rightarrow>
                  if e = CHR ''s'' then parse_pattern cs' (push_term (Sym CSpace) True st)
                  else if isAlnum e then Inl Unsupported
                  else parse_pattern cs' (push_term (Sym (CLit e)) True st))
           else if c = CHR ''['' then
             (case cs of
                [] \<Rightarrow> Inl SyntaxError
              | e # cs' \<Rightarrow>
                  if e = CHR ''^'' then parse_pattern cs' (st\<lparr>cls := Some (True, [])\<rparr>)
                  else parse_pattern cs (st\<lparr>cls := Some (False, [])\<rparr>))
           else if c = CHR ''('' then
             (case cs of
                [] \<Rightarrow> Inl SyntaxError
              | e # cs' \<Rightarrow>
                  if e = CHR ''?'' then
                    (case cs' of
                       [] \<Rightarrow> Inl SyntaxError
                     | f # cs'' \<Rightarrow>
                         if f = CHR '':'' then
                           parse_pattern cs''
                             (st\<lparr>stack := (alts st, terms st, None) # stack st,
                                alts := [], terms := [], quantifiable := False\<rparr>)
                         else if f = CHR ''='' \<or> f = CHR ''!'' \<or> f = CHR ''<'' then Inl Unsupported
                         else Inl SyntaxError)
                  else
                    parse_pattern cs
                      (st\<lparr>stack := (alts st, terms st, Some (Suc (ngroups st))) # stack st,
                         alts := [], terms := [], ngroups := Suc (ngroups st),
                         quantifiable := False\<rparr>))
           else if c = CHR '')'' then
             (case stack st of
                [] \<Rightarrow> Inl SyntaxError
              | (as, ts, cap) # stk \<Rightarrow>
                  parse_pattern cs
                    (st\<lparr>stack := stk, alts := as,
                       terms := (case cap of
                                   None \<Rightarrow> close_group (alts st) (terms st)
                                 | Some k \<Rightarrow> Group k (close_group (alts st) (terms st))) # ts,
                       quantifiable := True\<rparr>))
           else if c = CHR ''|'' then
             parse_pattern cs
               (st\<lparr>alts := mk_seq (rev (terms st)) # alts st, terms := [], quantifiable := False\<rparr>)
           else if c = CHR ''*'' \<or> c = CHR ''+'' \<or> c = CHR ''?'' then
             (if \<not> quantifiable st then Inl SyntaxError
              else
                (case cs of
                   [] \<Rightarrow> parse_pattern cs (quantify c True st)
                 | q # cs' \<Rightarrow>
                     if q = CHR ''?'' then parse_pattern cs' (quantify c False st)
                     else parse_pattern cs (quantify c True st)))
           else if c = CHR ''{'' then Inl Unsupported
           else if c = CHR ''^'' then parse_pattern cs (push_term Bol False st)
           else if c = CHR ''$'' then parse_pattern cs (push_term Eol False st)
           else if c = CHR ''.'' then parse_pattern cs (push_term (Sym CAny) True st)
           else parse_pattern cs (push_term (Sym (CLit c)) True st)))"

text \<open>\<^verbatim>\<open>new RegExp(source, 'g')\<close>.\<close>

definition new_RegExp :: "string \<Rightarrow> error + regexp" where
  "new_RegExp source = parse_pattern source init_pstate"


section \<open>Searching and replacing\<close>

text \<open>
  \<open>search r n s\<close> is one call of \<^verbatim>\<open>exec\<close> with \<^verbatim>\<open>lastIndex\<close> at the start of \<open>s\<close>: the
  leftmost position of \<open>s\<close> at which \<open>r\<close> matches. The result is the text skipped before the
  match, the matched text (\<^verbatim>\<open>match[0]\<close>), the captures and the text after the match (where
  \<^verbatim>\<open>lastIndex\<close> then stands).
\<close>

fun search :: "rx \<Rightarrow> nat \<Rightarrow> string \<Rightarrow> (string \<times> string \<times> captures \<times> string) option" where
  "search r n [] =
     (case bt r n [] [] of
        [] \<Rightarrow> None
      | m # _ \<Rightarrow> Some ([], [], fst m, snd m))"
| "search r n (x # xs) =
     (case bt r n [] (x # xs) of
        [] \<Rightarrow>
          (case search r n xs of
             None \<Rightarrow> None
           | Some (p, m, c, t) \<Rightarrow> Some (x # p, m, c, t))
      | m # _ \<Rightarrow> Some ([], take (length (x # xs) - length (snd m)) (x # xs), fst m, snd m))"

lemma bt_suffix:
  "(c', s') \<in> set (bt r n c s) \<Longrightarrow> \<exists>u. s = u @ s'"
proof (induction r n c s arbitrary: c' s' rule: bt.induct)
  case (1 n c s)
  then show ?case by simp
next
  case (2 a n c s)
  then show ?case by (cases s) (auto split: if_splits)
next
  case (3 n c s)
  then show ?case by (auto split: if_splits)
next
  case (4 n c s)
  then show ?case by (auto split: if_splits)
next
  case (5 a b n c s)
  from "5.prems" obtain c1 s1 where m1: "(c1, s1) \<in> set (bt a n c s)"
    and m: "(c', s') \<in> set (bt b n c1 s1)"
    by (auto simp: bt_Seq bt_all_member)
  from "5.IH"(1)[OF m1] obtain u where u: "s = u @ s1" by blast
  from "5.IH"(2)[OF m1] m obtain v where v: "s1 = v @ s'" by force
  from u v have "s = (u @ v) @ s'" by simp
  then show ?case by blast
next
  case (6 a b n c s)
  then show ?case by auto
next
  case (7 g a n c s)
  let ?L = "filter (\<lambda>m. length (snd m) < length s) (bt a n (clear a c) s)"
  from "7.prems" have "(c', s') = (c, s) \<or> (c', s') \<in> set (bt_all (Star g a) n ?L)"
    by (subst (asm) bt_Star) (auto split: if_splits)
  then show ?case
  proof
    assume "(c', s') = (c, s)"
    then show ?thesis by simp
  next
    assume "(c', s') \<in> set (bt_all (Star g a) n ?L)"
    then obtain c1 s1 where in_L: "(c1, s1) \<in> set ?L"
      and m: "(c', s') \<in> set (bt (Star g a) n c1 s1)"
      unfolding bt_all_member by blast
    from in_L have m1: "(c1, s1) \<in> set (bt a n (clear a c) s)" by simp
    from "7.IH"(1)[OF m1] obtain u where u: "s = u @ s1" by blast
    from "7.IH"(2)[OF in_L] m obtain v where v: "s1 = v @ s'" by force
    from u v have "s = (u @ v) @ s'" by simp
    then show ?thesis by blast
  qed
next
  case (8 g a n c s)
  then show ?case by (auto simp: Let_def split: if_splits)
next
  case (9 k a n c s)
  then show ?case by auto
qed

lemma search_decomp:
  "search r n s = Some (p, m, c, t) \<Longrightarrow> s = p @ m @ t"
proof (induction s arbitrary: p)
  case Nil
  then obtain h rest where h: "bt r n [] [] = h # rest" and t: "t = snd h" and "p = []" "m = []"
    by (auto split: list.splits)
  from h have "(fst h, snd h) \<in> set (bt r n [] [])" by simp
  from bt_suffix[OF this] t \<open>p = []\<close> \<open>m = []\<close> show ?case by simp
next
  case (Cons x xs)
  show ?case
  proof (cases "bt r n [] (x # xs)")
    case Nil
    with Cons.prems obtain p' where "search r n xs = Some (p', m, c, t)" and "p = x # p'"
      by (auto split: option.splits)
    with Cons.IH show ?thesis by simp
  next
    case (Cons h rest)
    with Cons.prems have p: "p = []" and m: "m = take (length (x # xs) - length (snd h)) (x # xs)"
      and t: "t = snd h"
      by auto
    from Cons have "(fst h, snd h) \<in> set (bt r n [] (x # xs))" by simp
    from bt_suffix[OF this] obtain u where u: "x # xs = u @ snd h" by blast
    then have "length (x # xs) - length (snd h) = length u"
      by (metis add_diff_cancel_right' length_append)
    with m u have "m = u" by simp
    with p t u show ?thesis by simp
  qed
qed

lemma search_shorter:
  assumes "search r n s = Some (p, m, c, t)" and "m \<noteq> []"
  shows "length t < length s"
proof -
  from assms(1) have "s = p @ m @ t" by (rule search_decomp)
  then have "length s = length p + length m + length t" by simp
  moreover from assms(2) have "0 < length m" by simp
  ultimately show ?thesis by linarith
qed

text \<open>
  The loop \<^verbatim>\<open>while ((match = re.exec(code)) !== null) { body }\<close> over a regular expression
  with the \<^verbatim>\<open>g\<close> flag. \<open>s\<close> is the input from \<^verbatim>\<open>lastIndex\<close> on and \<open>acc\<close> the state the body
  changes. \<^verbatim>\<open>exec\<close> leaves \<^verbatim>\<open>lastIndex\<close> at the end of the match; after an empty match the
  next call finds the same match again, so the loop never ends.
\<close>

function exec_while ::
  "regexp \<Rightarrow> (captures \<Rightarrow> 'a \<Rightarrow> error + 'a) \<Rightarrow> nat \<Rightarrow> string \<Rightarrow> 'a \<Rightarrow> error + 'a" where
  "exec_while re body n s acc =
     (case search (rx_body re) n s of
        None \<Rightarrow> Inr acc
      | Some (p, m, c, t) \<Rightarrow>
          (case body c acc of
             Inl e \<Rightarrow> Inl e
           | Inr acc' \<Rightarrow> if m = [] then Inl NonTermination else exec_while re body n t acc'))"
  by pat_completeness auto
termination
  by (relation "measure (\<lambda>(re, body, n, s, acc). length s)") (auto dest: search_shorter)

declare exec_while.simps [simp del]

text \<open>
  \<^verbatim>\<open>GetSubstitution\<close>: the replacement text for one match, from the template. \<open>k\<close> is the
  number of capturing groups of the regular expression, \<open>pre\<close> and \<open>post\<close> are the
  input before and after the match. The component's regular expressions have no named groups,
  so \<^verbatim>\<open>$<\<close> stands for itself.
\<close>

definition isDigit :: "char \<Rightarrow> bool" where
  "isDigit c = (48 \<le> (of_char c :: nat) \<and> (of_char c :: nat) \<le> 57)"

definition digit_val :: "char \<Rightarrow> nat" where
  "digit_val c = of_char c - 48"

definition capture_text :: "captures \<Rightarrow> nat \<Rightarrow> string" where
  "capture_text c i = (case map_of c i of None \<Rightarrow> [] | Some v \<Rightarrow> v)"

fun get_substitution :: "string \<Rightarrow> string \<Rightarrow> captures \<Rightarrow> nat \<Rightarrow> string \<Rightarrow> string \<Rightarrow> string" where
  "get_substitution m pre c k post [] = []"
| "get_substitution m pre c k post (a # tpl) =
     (if a \<noteq> CHR ''$'' then a # get_substitution m pre c k post tpl
      else
        (case tpl of
           [] \<Rightarrow> [a]
         | d # tpl' \<Rightarrow>
             if d = CHR ''$'' then CHR ''$'' # get_substitution m pre c k post tpl'
             else if d = CHR ''&'' then m @ get_substitution m pre c k post tpl'
             else if d = CHR 0x60 then pre @ get_substitution m pre c k post tpl'
             else if d = CHR 0x27 then post @ get_substitution m pre c k post tpl'
             else if isDigit d then
               (case tpl' of
                  [] \<Rightarrow>
                    (if 1 \<le> digit_val d \<and> digit_val d \<le> k then capture_text c (digit_val d)
                     else [a, d])
                | e # tpl'' \<Rightarrow>
                    if isDigit e \<and> 10 * digit_val d + digit_val e \<le> k then
                      (if 1 \<le> 10 * digit_val d + digit_val e
                       then capture_text c (10 * digit_val d + digit_val e)
                       else [a, d, e]) @ get_substitution m pre c k post tpl''
                    else
                      (if 1 \<le> digit_val d \<and> digit_val d \<le> k then capture_text c (digit_val d)
                       else [a, d]) @ get_substitution m pre c k post tpl')
             else a # get_substitution m pre c k post tpl))"

text \<open>
  \<^verbatim>\<open>s.replace(re, template)\<close> for a regular expression with the \<^verbatim>\<open>g\<close> flag: every match,
  from left to right, is replaced; after an empty match the search moves on by one code unit.
  \<open>pre\<close> is the input before \<open>s\<close>.
\<close>

function replace_from :: "regexp \<Rightarrow> string \<Rightarrow> nat \<Rightarrow> string \<Rightarrow> string \<Rightarrow> string" where
  "replace_from re tpl n pre s =
     (case search (rx_body re) n s of
        None \<Rightarrow> s
      | Some (p, m, c, t) \<Rightarrow>
          p @ get_substitution m (pre @ p) c (rx_groups re) t tpl @
          (if m = [] then
             (case t of
                [] \<Rightarrow> []
              | x # xs \<Rightarrow> x # replace_from re tpl n (pre @ p @ [x]) xs)
           else replace_from re tpl n (pre @ p @ m) t))"
  by pat_completeness auto
termination
proof (relation "measure (\<lambda>(re, tpl, n, pre, s). length s)", goal_cases)
  case 1
  then show ?case by simp
next
  case (2 re tpl n pre s x2 p y m z c t x xs)
  then have "s = p @ m @ x # xs"
    using search_decomp[of "rx_body re" n s p m c t] by simp
  then show ?case by simp
next
  case (3 re tpl n pre s x2 p y m z c t)
  then show ?case
    using search_shorter[of "rx_body re" n s p m c t] by simp
qed

declare replace_from.simps [simp del]

definition replace :: "regexp \<Rightarrow> string \<Rightarrow> string \<Rightarrow> string" where
  "replace re tpl s = replace_from re tpl (length s) [] s"


section \<open>Numbers\<close>

text \<open>
  A JavaScript number is \<^verbatim>\<open>NaN\<close>, an infinity or a finite IEEE 754 double, which is given
  here by its exact rational value. Every arithmetic operation rounds its exact result to the
  nearest double, ties to the even significand (\<open>fl\<close>). The two zeros are one value: the
  component multiplies and divides by the positive constants 50, adds and subtracts 400 and
  300, negates and prints with \<^verbatim>\<open>toFixed\<close>, and none of these tells \<^verbatim>\<open>-0\<close> from \<^verbatim>\<open>0\<close>.
\<close>

datatype number = NaN | PosInf | NegInf | Fin rat

definition pow2 :: "int \<Rightarrow> rat" where
  "pow2 k = (if 0 \<le> k then 2 ^ nat k else 1 / 2 ^ nat (- k))"

text \<open>The fraction \<open>a / b\<close> divided by \<open>2 ^ p\<close>, as a fraction of integers.\<close>

definition scaled :: "int \<Rightarrow> int \<Rightarrow> int \<Rightarrow> int \<times> int" where
  "scaled a b p = (if 0 \<le> p then (a, b * 2 ^ nat p) else (a * 2 ^ nat (- p), b))"

text \<open>The binary exponent of a positive fraction: \<open>2 ^ e \<le> a / b < 2 ^ (e + 1)\<close>.\<close>

definition ilog2 :: "int \<Rightarrow> int \<Rightarrow> int" where
  "ilog2 a b =
     (let e = bitlen a - bitlen b
      in case scaled a b e of (n, d) \<Rightarrow> if d \<le> n then e else e - 1)"

text \<open>The integer nearest to \<open>n / d\<close>, the even one of two that are equally near.\<close>

definition round_even :: "int \<Rightarrow> int \<Rightarrow> int" where
  "round_even n d =
     (let f = n div d; r = 2 * (n mod d)
      in if r < d then f else if d < r then f + 1 else if even f then f else f + 1)"

text \<open>
  The double nearest to a rational: 53 significant bits, exponents from \<open>- 1074\<close> for the
  last bit of a subnormal number, and an infinity from \<open>2 ^ 1024\<close> on.
\<close>

definition fl :: "rat \<Rightarrow> number" where
  "fl q =
     (if q = 0 then Fin 0
      else
        (case quotient_of \<bar>q\<bar> of (a, b) \<Rightarrow>
           (let e = ilog2 a b;
                p = max (e - 52) (- 1074);
                m = (case scaled a b p of (n, d) \<Rightarrow> round_even n d)
            in if 1024 \<le> e \<or> (e = 1023 \<and> m = 2 ^ 53) then (if q < 0 then NegInf else PosInf)
               else Fin ((if q < 0 then - 1 else 1) * of_int m * pow2 p))))"

fun num_neg :: "number \<Rightarrow> number" where
  "num_neg NaN = NaN"
| "num_neg PosInf = NegInf"
| "num_neg NegInf = PosInf"
| "num_neg (Fin q) = Fin (- q)"

text \<open>The four operations with a finite positive constant as the right operand.\<close>

fun num_mul :: "number \<Rightarrow> rat \<Rightarrow> number" where
  "num_mul (Fin q) k = fl (q * k)"
| "num_mul x k = x"

fun num_add :: "number \<Rightarrow> rat \<Rightarrow> number" where
  "num_add (Fin q) k = fl (q + k)"
| "num_add x k = x"

fun num_sub :: "number \<Rightarrow> rat \<Rightarrow> number" where
  "num_sub (Fin q) k = fl (q - k)"
| "num_sub x k = x"

fun num_div :: "number \<Rightarrow> rat \<Rightarrow> number" where
  "num_div (Fin q) k = fl (q / k)"
| "num_div x k = x"

definition digits_val :: "string \<Rightarrow> nat" where
  "digits_val ds = foldl (\<lambda>a c. 10 * a + digit_val c) 0 ds"

text \<open>The exponent part \<^verbatim>\<open>e\<close>, an optional sign and digits; anything else is not part of
  the number.\<close>

definition exponent_part :: "string \<Rightarrow> int" where
  "exponent_part s =
     (case s of
        [] \<Rightarrow> 0
      | e # r \<Rightarrow>
          if e = CHR ''e'' \<or> e = CHR ''E'' then
            (case r of
               [] \<Rightarrow> 0
             | g # r' \<Rightarrow>
                 if g = CHR ''-'' then - int (digits_val (takeWhile isDigit r'))
                 else if g = CHR ''+'' then int (digits_val (takeWhile isDigit r'))
                 else int (digits_val (takeWhile isDigit r)))
          else 0)"

definition scale10 :: "rat \<Rightarrow> int \<Rightarrow> rat" where
  "scale10 q e = (if 0 \<le> e then q * 10 ^ nat e else q / 10 ^ nat (- e))"

text \<open>\<^verbatim>\<open>parseFloat(s)\<close>: leading white space is skipped and the longest prefix that is a
  decimal literal is read; the result is the double nearest to its value, \<^verbatim>\<open>NaN\<close> when
  there is no such prefix.\<close>

definition parseFloat :: "string \<Rightarrow> number" where
  "parseFloat s =
     (let t = dropWhile isWhiteSpace s;
          neg = (t \<noteq> [] \<and> hd t = CHR ''-'');
          u = (if t \<noteq> [] \<and> (hd t = CHR ''-'' \<or> hd t = CHR ''+'') then tl t else t);
          ip = takeWhile isDigit u;
          r1 = dropWhile isDigit u;
          dot = (r1 \<noteq> [] \<and> hd r1 = CHR ''.'');
          fp = (if dot then takeWhile isDigit (tl r1) else []);
          r2 = (if dot then dropWhile isDigit (tl r1) else r1);
          mant = rat_of_nat (digits_val ip) + rat_of_nat (digits_val fp) / 10 ^ length fp
      in if startsWith u ''Infinity'' then (if neg then NegInf else PosInf)
         else if ip = [] \<and> fp = [] then NaN
         else fl ((if neg then - 1 else 1) * scale10 mant (exponent_part r2)))"

definition digit_char :: "nat \<Rightarrow> char" where
  "digit_char d = char_of (48 + d)"

function show_nat :: "nat \<Rightarrow> string" where
  "show_nat n = (if n < 10 then [digit_char n] else show_nat (n div 10) @ [digit_char (n mod 10)])"
  by pat_completeness auto
termination
  by (relation "measure id") auto

declare show_nat.simps [simp del]

text \<open>
  \<^verbatim>\<open>Number::toString\<close> for a double \<open>x\<close> from \<^verbatim>\<open>1e21\<close> on, which is an integer \<open>X\<close> of
  \<open>n0\<close> digits: the shortest numeral \<open>s\<close>, of \<open>k\<close> digits, for which \<open>s * 10 ^ (n0 - k)\<close>
  rounds to \<open>x\<close>, the nearest to \<open>x\<close> of two, in the exponent notation.
\<close>

definition shortest_digits :: "nat \<Rightarrow> nat \<Rightarrow> nat \<Rightarrow> nat option" where
  "shortest_digits X n0 k =
     (let u = 10 ^ (n0 - k);
          lo = X div u;
          ok_lo = (fl (of_nat (lo * u)) = Fin (of_nat X));
          ok_hi = (fl (of_nat ((lo + 1) * u)) = Fin (of_nat X))
      in if ok_lo \<and> ok_hi then
           (if X - lo * u < (lo + 1) * u - X then Some lo
            else if (lo + 1) * u - X < X - lo * u then Some (lo + 1)
            else if even lo then Some lo else Some (lo + 1))
         else if ok_lo then Some lo
         else if ok_hi then Some (lo + 1)
         else None)"

fun first_digits :: "nat \<Rightarrow> nat \<Rightarrow> nat list \<Rightarrow> nat \<times> nat" where
  "first_digits X n0 [] = (X div 10 ^ (n0 - 17), 17)"
| "first_digits X n0 (k # ks) =
     (case shortest_digits X n0 k of
        Some s \<Rightarrow> (s, k)
      | None \<Rightarrow> first_digits X n0 ks)"

definition to_string_large :: "rat \<Rightarrow> string" where
  "to_string_large x =
     (let X = nat \<lfloor>x\<rfloor>;
          n0 = length (show_nat X)
      in case first_digits X n0 [1..<18] of
           (s, k) \<Rightarrow>
             (let ds = (if s = 10 ^ k then show_nat 1 else show_nat s);
                  e = (if s = 10 ^ k then n0 else n0 - 1)
              in take 1 ds @ (if drop 1 ds = [] then [] else ''.'' @ drop 1 ds) @
                 ''e+'' @ show_nat e))"

text \<open>
  \<^verbatim>\<open>x.toFixed(2)\<close>: after the sign, the decimal numeral with two fraction digits nearest to
  the value of \<open>x\<close>, the larger one of two that are equally near; from \<^verbatim>\<open>1e21\<close> on, the
  exponent notation of \<^verbatim>\<open>Number::toString\<close>.
\<close>

fun toFixed2 :: "number \<Rightarrow> string" where
  "toFixed2 NaN = ''NaN''"
| "toFixed2 PosInf = ''Infinity''"
| "toFixed2 NegInf = ''-Infinity''"
| "toFixed2 (Fin q) =
     (if q < 0 then ''-'' else []) @
     (if 10 ^ 21 \<le> \<bar>q\<bar> then to_string_large \<bar>q\<bar>
      else
        (let n = nat \<lfloor>\<bar>q\<bar> * 100 + 1 / 2\<rfloor>
         in show_nat (n div 100) @ ''.'' @
            [digit_char (n mod 100 div 10), digit_char (n mod 10)]))"


section \<open>The editor component\<close>

subsection \<open>The regular expression literals\<close>

text \<open>
  \<^verbatim>\<open>nodeRegex = /\\node\[([^\]]*)\]\s*\(([^)]+)\)\s*at\s*\(([^)]+)\)\s*\{([^}]*)\}/g\<close>,
  \<^verbatim>\<open>arrowRegex = /\\draw\[([^\]]*)\]\s*\(([^)]+)\)\s*--\s*\(([^)]+)\)/g\<close>, and the three
  literals used on the captures: \<^verbatim>\<open>/cm/g\<close>, \<^verbatim>\<open>/\\textbf\{([^}]+)\}/g\<close> and
  \<^verbatim>\<open>/\\\\/g\<close>. Each is given as its syntax tree; the lemmas \<open>*_source\<close> below show that
  the tree is what the pattern's text compiles to.
\<close>

abbreviation lit :: "char \<Rightarrow> rx" where
  "lit c \<equiv> Sym (CLit c)"

abbreviation none_of :: "char \<Rightarrow> rx" where
  "none_of c \<equiv> Sym (CSet True [IChar c])"

abbreviation spaces :: rx where
  "spaces \<equiv> Star True (Sym CSpace)"

definition nodeRegex :: regexp where
  "nodeRegex =
     \<lparr>rx_body = mk_seq
        [lit (CHR 0x5C), lit CHR ''n'', lit CHR ''o'', lit CHR ''d'', lit CHR ''e'', lit CHR ''['',
         Group 1 (Star True (none_of CHR '']'')), lit CHR '']'', spaces,
         lit CHR ''('', Group 2 (Seq (none_of CHR '')'') (Star True (none_of CHR '')''))), lit CHR '')'',
         spaces, lit CHR ''a'', lit CHR ''t'', spaces,
         lit CHR ''('', Group 3 (Seq (none_of CHR '')'') (Star True (none_of CHR '')''))), lit CHR '')'',
         spaces, lit CHR ''{'', Group 4 (Star True (none_of CHR ''}'')), lit CHR ''}''],
      rx_groups = 4\<rparr>"

definition arrowRegex :: regexp where
  "arrowRegex =
     \<lparr>rx_body = mk_seq
        [lit (CHR 0x5C), lit CHR ''d'', lit CHR ''r'', lit CHR ''a'', lit CHR ''w'', lit CHR ''['',
         Group 1 (Star True (none_of CHR '']'')), lit CHR '']'', spaces,
         lit CHR ''('', Group 2 (Seq (none_of CHR '')'') (Star True (none_of CHR '')''))), lit CHR '')'',
         spaces, lit CHR ''-'', lit CHR ''-'', spaces,
         lit CHR ''('', Group 3 (Seq (none_of CHR '')'') (Star True (none_of CHR '')''))), lit CHR '')''],
      rx_groups = 3\<rparr>"

definition cmRegex :: regexp where
  "cmRegex = \<lparr>rx_body = Seq (lit CHR ''c'') (lit CHR ''m''), rx_groups = 0\<rparr>"

definition textbfRegex :: regexp where
  "textbfRegex =
     \<lparr>rx_body = mk_seq
        [lit (CHR 0x5C), lit CHR ''t'', lit CHR ''e'', lit CHR ''x'', lit CHR ''t'', lit CHR ''b'',
         lit CHR ''f'', lit CHR ''{'',
         Group 1 (Seq (none_of CHR ''}'') (Star True (none_of CHR ''}''))), lit CHR ''}''],
      rx_groups = 1\<rparr>"

definition backslashesRegex :: regexp where
  "backslashesRegex = \<lparr>rx_body = Seq (lit (CHR 0x5C)) (lit (CHR 0x5C)), rx_groups = 0\<rparr>"

subsection \<open>State\<close>

text \<open>The objects pushed by \<^verbatim>\<open>parseTikZCode\<close>: \<^verbatim>\<open>{ name, x, y, text, styleType }\<close> and
  \<^verbatim>\<open>{ from, to, dashed }\<close>; \<open>x\<close> and \<open>y\<close> are canvas pixels.\<close>

record node =
  n_name :: string
  n_x :: number
  n_y :: number
  n_text :: string
  n_styleType :: string

record connection =
  c_from :: string
  c_to :: string
  c_dashed :: bool

text \<open>The component's state, as far as the parser and the rewriter use it:
  \<^verbatim>\<open>tikzCode\<close>, \<^verbatim>\<open>nodes\<close> and \<^verbatim>\<open>connections\<close>.\<close>

record editor =
  tikzCode :: string
  nodes :: "node list"
  connections :: "connection list"

subsection \<open>parseTikZCode\<close>

definition styleType_of :: "string \<Rightarrow> string" where
  "styleType_of style =
     (if str_includes style ''cloud'' \<or> str_includes style ''ellipse'' then ''ellipse''
      else if str_includes style ''db'' \<or> str_includes style ''cylinder'' then ''cylinder''
      else if str_includes style ''k8s'' then ''dashed_rect''
      else if str_includes style ''api'' then ''yellow_rect''
      else ''rectangle'')"

text \<open>The body of the first loop. A capture that is \<^verbatim>\<open>undefined\<close> makes the method call on
  it throw.\<close>

definition push_node :: "captures \<Rightarrow> node list \<Rightarrow> error + node list" where
  "push_node m ns =
     (case (map_of m 1, map_of m 2, map_of m 3, map_of m 4) of
        (Some style, Some name, Some m3, Some m4) \<Rightarrow>
          (let coords = str_split CHR '','' (str_trim (replace cmRegex [] m3));
               text = replace backslashesRegex [CHR 0x0A] (replace textbfRegex ''$1'' m4)
           in case coords of
                [c0, c1] \<Rightarrow>
                  Inr (ns @
                    [\<lparr>n_name = name,
                      n_x = num_add (num_mul (parseFloat (str_trim c0)) 50) 400,
                      n_y = num_add (num_mul (num_neg (parseFloat (str_trim c1))) 50) 300,
                      n_text = text,
                      n_styleType = styleType_of style\<rparr>])
              | _ \<Rightarrow> Inr ns)
      | _ \<Rightarrow> Inl TypeError)"

text \<open>The body of the second loop; \<^verbatim>\<open>nodes.find\<close> returns the first node with the name,
  or \<^verbatim>\<open>undefined\<close>.\<close>

definition push_connection :: "node list \<Rightarrow> captures \<Rightarrow> connection list \<Rightarrow> error + connection list" where
  "push_connection ns m cs =
     (case (map_of m 1, map_of m 2, map_of m 3) of
        (Some style, Some fromName, Some toName) \<Rightarrow>
          (if find (\<lambda>n. n_name n = fromName) ns \<noteq> None \<and> find (\<lambda>n. n_name n = toName) ns \<noteq> None
           then Inr (cs @ [\<lparr>c_from = fromName, c_to = toName, c_dashed = str_includes style ''dashed''\<rparr>])
           else Inr cs)
      | _ \<Rightarrow> Inl TypeError)"

text \<open>\<^verbatim>\<open>parseTikZCode(code)\<close>: the two loops, then \<^verbatim>\<open>setNodes(nodes)\<close> and
  \<^verbatim>\<open>setConnections(connections)\<close>; the result is the pair that is set.\<close>

definition parseTikZCode :: "string \<Rightarrow> error + node list \<times> connection list" where
  "parseTikZCode code =
     (case exec_while nodeRegex push_node (length code) code [] of
        Inl e \<Rightarrow> Inl e
      | Inr ns \<Rightarrow>
          (case exec_while arrowRegex (push_connection ns) (length code) code [] of
             Inl e \<Rightarrow> Inl e
           | Inr cs \<Rightarrow> Inr (ns, cs)))"

subsection \<open>updateCodeFromNodes\<close>

text \<open>
  The body of \<^verbatim>\<open>nodes.forEach\<close>: the node's pixel position is converted to units and
  formatted, the regular expression is built from the node's name as it is, and every match in
  the code is replaced by \<^verbatim>\<open>(name) at (Xcm,Ycm)\<close>.
\<close>

definition node_pattern :: "string \<Rightarrow> string" where
  "node_pattern name =
     BS @ ''('' @ name @ BS @ '')'' @ BS @ ''s*at'' @ BS @ ''s*'' @ BS @ ''([^)]+'' @ BS @ '')''"

definition update_node :: "node \<Rightarrow> string \<Rightarrow> error + string" where
  "update_node node updatedCode =
     (let tikzX = toFixed2 (num_div (num_sub (n_x node) 400) 50);
          tikzY = toFixed2 (num_div (num_neg (num_sub (n_y node) 300)) 50)
      in case new_RegExp (node_pattern (n_name node)) of
           Inl e \<Rightarrow> Inl e
         | Inr regex \<Rightarrow>
             Inr (replace regex (''('' @ n_name node @ '') at ('' @ tikzX @ ''cm,'' @ tikzY @ ''cm)'')
                    updatedCode))"

fun forEach_update :: "node list \<Rightarrow> string \<Rightarrow> error + string" where
  "forEach_update [] updatedCode = Inr updatedCode"
| "forEach_update (node # rest) updatedCode =
     (case update_node node updatedCode of
        Inl e \<Rightarrow> Inl e
      | Inr updatedCode' \<Rightarrow> forEach_update rest updatedCode')"

text \<open>\<^verbatim>\<open>updateCodeFromNodes()\<close> reads \<^verbatim>\<open>tikzCode\<close> and \<^verbatim>\<open>nodes\<close> of the render it was
  created in; the result is the argument of \<^verbatim>\<open>setTikzCode\<close>.\<close>

definition updateCodeFromNodes :: "string \<Rightarrow> node list \<Rightarrow> error + string" where
  "updateCodeFromNodes code ns = forEach_update ns code"

subsection \<open>Events\<close>

text \<open>The function passed to \<^verbatim>\<open>setNodes\<close> by \<^verbatim>\<open>handleNodeDrag(nodeName, data)\<close>.\<close>

definition drag_nodes :: "string \<Rightarrow> number \<times> number \<Rightarrow> node list \<Rightarrow> node list" where
  "drag_nodes nodeName data prevNodes =
     map (\<lambda>node. if n_name node = nodeName
                  then node\<lparr>n_x := num_add (fst data) 400, n_y := num_add (snd data) 300\<rparr>
                  else node) prevNodes"

text \<open>
  \<^verbatim>\<open>useEffect(() => { parseTikZCode(tikzCode) }, [tikzCode])\<close>: after a render in which
  \<^verbatim>\<open>tikzCode\<close> differs from the previous render's, the code is parsed and \<^verbatim>\<open>nodes\<close> and
  \<^verbatim>\<open>connections\<close> are replaced.
\<close>

definition tikzCode_effect :: "editor \<Rightarrow> error + editor" where
  "tikzCode_effect s =
     (case parseTikZCode (tikzCode s) of
        Inl e \<Rightarrow> Inl e
      | Inr (ns, cs) \<Rightarrow> Inr (s\<lparr>nodes := ns, connections := cs\<rparr>))"

text \<open>
  One \<^verbatim>\<open>onDrag\<close> event, from the state of the last render to the state after React has
  settled. \<^verbatim>\<open>handleNodeDrag\<close> queues the update of \<^verbatim>\<open>nodes\<close> and then calls
  \<^verbatim>\<open>updateCodeFromNodes()\<close>, which still sees the \<^verbatim>\<open>nodes\<close> and \<^verbatim>\<open>tikzCode\<close> of the last
  render and queues \<^verbatim>\<open>setTikzCode\<close>. React applies both updates and renders; the effect above
  runs when \<^verbatim>\<open>tikzCode\<close> has changed. \<open>Inl e\<close>: the handler or the effect threw \<open>e\<close>.
\<close>

definition handleNodeDrag :: "editor \<Rightarrow> string \<Rightarrow> number \<times> number \<Rightarrow> error + editor" where
  "handleNodeDrag s nodeName data =
     (case updateCodeFromNodes (tikzCode s) (nodes s) of
        Inl e \<Rightarrow> Inl e
      | Inr updatedCode \<Rightarrow>
          (let s' = s\<lparr>nodes := drag_nodes nodeName data (nodes s), tikzCode := updatedCode\<rparr>
           in if updatedCode = tikzCode s then Inr s' else tikzCode_effect s'))"

text \<open>The text panel's \<^verbatim>\<open>onChange={setTikzCode}\<close>, with the same effect.\<close>

definition handleEditorChange :: "editor \<Rightarrow> string \<Rightarrow> error + editor" where
  "handleEditorChange s newCode =
     (if newCode = tikzCode s then Inr s else tikzCode_effect (s\<lparr>tikzCode := newCode\<rparr>))"


section \<open>The literals compile to their trees\<close>

lemma nodeRegex_source:
  "new_RegExp (BS @ BS @ ''node'' @ BS @ ''[([^'' @ BS @ '']]*)'' @ BS @ '']'' @ BS @ ''s*'' @
     BS @ ''(([^)]+)'' @ BS @ '')'' @ BS @ ''s*at'' @ BS @ ''s*'' @ BS @ ''(([^)]+)'' @ BS @ '')'' @
     BS @ ''s*'' @ BS @ ''{([^}]*)'' @ BS @ ''}'') = Inr nodeRegex"
  by code_simp

lemma arrowRegex_source:
  "new_RegExp (BS @ BS @ ''draw'' @ BS @ ''[([^'' @ BS @ '']]*)'' @ BS @ '']'' @ BS @ ''s*'' @
     BS @ ''(([^)]+)'' @ BS @ '')'' @ BS @ ''s*--'' @ BS @ ''s*'' @ BS @ ''(([^)]+)'' @ BS @ '')'')
   = Inr arrowRegex"
  by code_simp

lemma cmRegex_source:
  "new_RegExp ''cm'' = Inr cmRegex"
  by code_simp

lemma textbfRegex_source:
  "new_RegExp (BS @ BS @ ''textbf'' @ BS @ ''{([^}]+)'' @ BS @ ''}'') = Inr textbfRegex"
  by code_simp

lemma backslashesRegex_source:
  "new_RegExp (BS @ BS @ BS @ BS) = Inr backslashesRegex"
  by code_simp

section \<open>What the literals match\<close>

text \<open>
  Every quantifier of the component's regular expressions ranges over one character class and
  is followed by a character outside that class, so backtracking never finds a second way to
  match: a greedy run followed by that character takes the longest run. The lemmas below
  reduce the backtracking matcher on such patterns to \<open>takeWhile\<close> and \<open>dropWhile\<close>.
\<close>

lemma clear_Sym [simp]: "clear (Sym y) c = c"
  by (simp add: clear_def)

lemma bt_star_sym_Nil [simp]: "bt (Star True (Sym y)) n c [] = [(c, [])]"
  by (simp add: bt_Star)

lemma bt_star_sym_Cons [simp]:
  "bt (Star True (Sym y)) n c (x # xs) =
     (if sym_matches y x then bt (Star True (Sym y)) n c xs @ [(c, x # xs)] else [(c, x # xs)])"
  by (subst bt_Star) simp

lemma bt_all_star_capture:
  assumes fail: "\<And>x xs c'. sym_matches y x \<Longrightarrow> bt k n c' (x # xs) = []"
  shows "bt_all k n (map (\<lambda>m. (F (take (length (p @ s) - length (snd m)) (p @ s)) (fst m), snd m))
            (bt (Star True (Sym y)) n c s))
         = bt k n (F (p @ takeWhile (sym_matches y) s) c) (dropWhile (sym_matches y) s)"
proof (induction s arbitrary: p)
  case Nil
  show ?case by simp
next
  case (Cons x xs)
  show ?case
  proof (cases "sym_matches y x")
    case True
    have "bt_all k n (map (\<lambda>m. (F (take (length ((p @ [x]) @ xs) - length (snd m)) ((p @ [x]) @ xs)) (fst m), snd m))
            (bt (Star True (Sym y)) n c xs))
         = bt k n (F ((p @ [x]) @ takeWhile (sym_matches y) xs) c) (dropWhile (sym_matches y) xs)"
      by (rule Cons.IH)
    with True fail show ?thesis by simp
  next
    case False
    then show ?thesis by simp
  qed
qed

lemma bt_all_star_plain:
  assumes fail: "\<And>x xs c'. sym_matches y x \<Longrightarrow> bt k n c' (x # xs) = []"
  shows "bt_all k n (bt (Star True (Sym y)) n c s) = bt k n c (dropWhile (sym_matches y) s)"
  using bt_all_star_capture[where F = "\<lambda>v c. c" and p = "[]" and c = c and s = s, OF fail]
  by simp


fun strip_prefix :: "string \<Rightarrow> string \<Rightarrow> string option" where
  "strip_prefix [] s = Some s"
| "strip_prefix (p # ps) [] = None"
| "strip_prefix (p # ps) (x # xs) = (if p = x then strip_prefix ps xs else None)"

lemma bt_lit [simp]:
  "bt (lit a) n c s = (case strip_prefix [a] s of None \<Rightarrow> [] | Some s' \<Rightarrow> [(c, s')])"
  by (cases s) auto

lemma bt_lit_then [simp]:
  "bt (Seq (lit a) k) n c s = (case strip_prefix [a] s of None \<Rightarrow> [] | Some s' \<Rightarrow> bt k n c s')"
  by (cases s) (auto simp: bt_Seq)

lemma bt_star_then:
  assumes fail: "\<And>x xs c'. sym_matches y x \<Longrightarrow> bt k n c' (x # xs) = []"
  shows "bt (Seq (Star True (Sym y)) k) n c s = bt k n c (dropWhile (sym_matches y) s)"
  unfolding bt_Seq by (rule bt_all_star_plain) (rule fail)

lemma bt_group_star_then:
  assumes fail: "\<And>x xs c'. sym_matches y x \<Longrightarrow> bt k n c' (x # xs) = []"
  shows "bt (Seq (Group i (Star True (Sym y))) k) n c s
         = bt k n ((i, takeWhile (sym_matches y) s) # c) (dropWhile (sym_matches y) s)"
proof -
  have "bt (Seq (Group i (Star True (Sym y))) k) n c s
        = bt_all k n (map (\<lambda>m. ((i, take (length ([] @ s) - length (snd m)) ([] @ s)) # fst m, snd m))
            (bt (Star True (Sym y)) n c s))"
    by (simp only: bt_Seq bt.simps(9) append_Nil)
  also have "\<dots> = bt k n ((i, [] @ takeWhile (sym_matches y) s) # c) (dropWhile (sym_matches y) s)"
    by (rule bt_all_star_capture[where F = "\<lambda>v c. (i, v) # c"]) (rule fail)
  finally show ?thesis by simp
qed

lemma bt_plus_then:
  assumes fail: "\<And>x xs c'. sym_matches y x \<Longrightarrow> bt k n c' (x # xs) = []"
  shows "bt (Seq (Seq (Sym y) (Star True (Sym y))) k) n c s
         = (if takeWhile (sym_matches y) s = [] then []
            else bt k n c (dropWhile (sym_matches y) s))"
proof (cases s)
  case Nil
  then show ?thesis by (simp add: bt_Seq)
next
  case (Cons x xs)
  show ?thesis
  proof (cases "sym_matches y x")
    case True
    have "bt (Seq (Seq (Sym y) (Star True (Sym y))) k) n c (x # xs)
          = bt_all k n (bt (Star True (Sym y)) n c xs)"
      using True by (simp add: bt_Seq)
    also have "\<dots> = bt k n c (dropWhile (sym_matches y) xs)"
      by (rule bt_all_star_plain) (rule fail)
    finally show ?thesis using True Cons by simp
  next
    case False
    with Cons show ?thesis by (simp add: bt_Seq)
  qed
qed

lemma bt_group_plus_then:
  assumes fail: "\<And>x xs c'. sym_matches y x \<Longrightarrow> bt k n c' (x # xs) = []"
  shows "bt (Seq (Group i (Seq (Sym y) (Star True (Sym y)))) k) n c s
         = (if takeWhile (sym_matches y) s = [] then []
            else bt k n ((i, takeWhile (sym_matches y) s) # c) (dropWhile (sym_matches y) s))"
proof (cases s)
  case Nil
  then show ?thesis by (simp add: bt_Seq)
next
  case (Cons x xs)
  show ?thesis
  proof (cases "sym_matches y x")
    case True
    have "bt (Seq (Group i (Seq (Sym y) (Star True (Sym y)))) k) n c (x # xs)
          = bt_all k n (map (\<lambda>m. ((i, take (length ([x] @ xs) - length (snd m)) ([x] @ xs)) # fst m, snd m))
              (bt (Star True (Sym y)) n c xs))"
      using True by (simp add: bt_Seq)
    also have "\<dots> = bt k n ((i, [x] @ takeWhile (sym_matches y) xs) # c) (dropWhile (sym_matches y) xs)"
      by (rule bt_all_star_capture[where F = "\<lambda>v c. (i, v) # c"]) (rule fail)
    finally show ?thesis using True Cons by simp
  next
    case False
    with Cons show ?thesis by (simp add: bt_Seq)
  qed
qed

lemma lit_fails:
  "x \<noteq> b \<Longrightarrow> bt (Seq (lit b) k) n c (x # xs) = []"
  "x \<noteq> b \<Longrightarrow> bt (lit b) n c (x # xs) = []"
  by simp_all


lemma bt_star_then_lit [simp]:
  "\<not> sym_matches y b \<Longrightarrow>
   bt (Seq (Star True (Sym y)) (Seq (lit b) k)) n c s = bt (Seq (lit b) k) n c (dropWhile (sym_matches y) s)"
  by (rule bt_star_then) (auto simp del: bt_lit_then intro!: lit_fails)

lemma bt_group_star_then_lit [simp]:
  "\<not> sym_matches y b \<Longrightarrow>
   bt (Seq (Group i (Star True (Sym y))) (Seq (lit b) k)) n c s
   = bt (Seq (lit b) k) n ((i, takeWhile (sym_matches y) s) # c) (dropWhile (sym_matches y) s)"
  by (rule bt_group_star_then) (auto simp del: bt_lit_then intro!: lit_fails)

lemma bt_group_star_then_last [simp]:
  "\<not> sym_matches y b \<Longrightarrow>
   bt (Seq (Group i (Star True (Sym y))) (lit b)) n c s
   = bt (lit b) n ((i, takeWhile (sym_matches y) s) # c) (dropWhile (sym_matches y) s)"
  by (rule bt_group_star_then) (auto simp del: bt_lit intro!: lit_fails)

lemma bt_group_plus_then_lit [simp]:
  "\<not> sym_matches y b \<Longrightarrow>
   bt (Seq (Group i (Seq (Sym y) (Star True (Sym y)))) (Seq (lit b) k)) n c s
   = (if takeWhile (sym_matches y) s = [] then []
      else bt (Seq (lit b) k) n ((i, takeWhile (sym_matches y) s) # c) (dropWhile (sym_matches y) s))"
  by (rule bt_group_plus_then) (auto simp del: bt_lit_then intro!: lit_fails)

lemma bt_group_plus_then_last [simp]:
  "\<not> sym_matches y b \<Longrightarrow>
   bt (Seq (Group i (Seq (Sym y) (Star True (Sym y)))) (lit b)) n c s
   = (if takeWhile (sym_matches y) s = [] then []
      else bt (lit b) n ((i, takeWhile (sym_matches y) s) # c) (dropWhile (sym_matches y) s))"
  by (rule bt_group_plus_then) (auto simp del: bt_lit intro!: lit_fails)

lemma bt_plus_then_last [simp]:
  "\<not> sym_matches y b \<Longrightarrow>
   bt (Seq (Seq (Sym y) (Star True (Sym y))) (lit b)) n c s
   = (if takeWhile (sym_matches y) s = [] then []
      else bt (lit b) n c (dropWhile (sym_matches y) s))"
  by (rule bt_plus_then) (auto simp del: bt_lit intro!: lit_fails)

lemma sym_matches_none_of [simp]: "sym_matches (CSet True [IChar d]) = (\<lambda>c. c \<noteq> d)"
  by (rule ext) auto

lemma sym_matches_CSpace [simp]: "sym_matches CSpace = isWhiteSpace"
  by (rule ext) simp

definition scan_node :: "string \<Rightarrow> (string \<times> string \<times> string \<times> string \<times> string) option" where
  "scan_node s =
     Option.bind (strip_prefix (BS @ ''node['') s) (\<lambda>s1.
     Option.bind (strip_prefix '']'' (dropWhile (\<lambda>c. c \<noteq> CHR '']'') s1)) (\<lambda>s2.
     Option.bind (strip_prefix ''('' (dropWhile isWhiteSpace s2)) (\<lambda>s3.
     if takeWhile (\<lambda>c. c \<noteq> CHR '')'') s3 = [] then None else
     Option.bind (strip_prefix '')'' (dropWhile (\<lambda>c. c \<noteq> CHR '')'') s3)) (\<lambda>s4.
     Option.bind (strip_prefix ''at'' (dropWhile isWhiteSpace s4)) (\<lambda>s5.
     Option.bind (strip_prefix ''('' (dropWhile isWhiteSpace s5)) (\<lambda>s6.
     if takeWhile (\<lambda>c. c \<noteq> CHR '')'') s6 = [] then None else
     Option.bind (strip_prefix '')'' (dropWhile (\<lambda>c. c \<noteq> CHR '')'') s6)) (\<lambda>s7.
     Option.bind (strip_prefix ''{'' (dropWhile isWhiteSpace s7)) (\<lambda>s8.
     Option.bind (strip_prefix ''}'' (dropWhile (\<lambda>c. c \<noteq> CHR ''}'') s8)) (\<lambda>rest.
     Some (takeWhile (\<lambda>c. c \<noteq> CHR '']'') s1, takeWhile (\<lambda>c. c \<noteq> CHR '')'') s3,
           takeWhile (\<lambda>c. c \<noteq> CHR '')'') s6, takeWhile (\<lambda>c. c \<noteq> CHR ''}'') s8, rest))))))))))"

lemma strip_prefix_Cons2:
  "strip_prefix (a # b # p) s = Option.bind (strip_prefix [a] s) (strip_prefix (b # p))"
  by (cases s) auto

lemma bt_nodeRegex:
  "bt (rx_body nodeRegex) n c s =
     (case scan_node s of
        None \<Rightarrow> []
      | Some (style, name, coords, label, rest) \<Rightarrow>
          [((4, label) # (3, coords) # (2, name) # (1, style) # c, rest)])"
  unfolding nodeRegex_def scan_node_def
  by (simp add: isWhiteSpace_def strip_prefix_Cons2 del: bt.simps(2) split: option.splits Option.bind_splits)


section \<open>The loops over the matches\<close>

lemma search_Some_bt:
  "search r n s = Some (p, m, c, t) \<Longrightarrow> \<exists>ms. bt r n [] (m @ t) = (c, t) # ms"
proof (induction s arbitrary: p)
  case Nil
  from search_decomp[OF Nil] have "m = []" "t = []" by simp_all
  with Nil show ?case by (auto split: list.splits)
next
  case (Cons x xs)
  show ?case
  proof (cases "bt r n [] (x # xs)")
    case Nil
    with Cons.prems obtain p' where "search r n xs = Some (p', m, c, t)"
      by (auto split: option.splits)
    then show ?thesis by (rule Cons.IH)
  next
    case (Cons h rest)
    with Cons.prems have "p = []" and c: "c = fst h" and t: "t = snd h" by auto
    with search_decomp[OF Cons.prems] have "x # xs = m @ t" by simp
    with Cons c t show ?thesis by (cases h) auto
  qed
qed

text \<open>The match objects that the successive calls of \<^verbatim>\<open>exec\<close> return: \<^verbatim>\<open>index\<close>,
  \<^verbatim>\<open>match[0]\<close> and the captures. \<open>i\<close> is \<^verbatim>\<open>lastIndex\<close>, the position of \<open>s\<close> in the input.\<close>

function exec_all :: "rx \<Rightarrow> nat \<Rightarrow> nat \<Rightarrow> string \<Rightarrow> (nat \<times> string \<times> captures) list" where
  "exec_all r n i s =
     (case search r n s of
        None \<Rightarrow> []
      | Some (p, m, c, t) \<Rightarrow>
          (i + length p, m, c) #
          (if m = [] then [] else exec_all r n (i + length p + length m) t))"
  by pat_completeness auto
termination
  by (relation "measure (\<lambda>(r, n, i, s). length s)") (auto dest: search_shorter)

declare exec_all.simps [simp del]

lemma exec_all_index:
  "(j, m, c) \<in> set (exec_all r n i s) \<Longrightarrow>
     i \<le> j \<and> j \<le> i + length s \<and> (\<exists>t ms. bt r n [] (drop (j - i) s) = (c, t) # ms)"
proof (induction r n i s rule: exec_all.induct)
  case (1 r n i s)
  show ?case
  proof (cases "search r n s")
    case None
    with "1.prems" show ?thesis by (simp add: exec_all.simps)
  next
    case (Some a)
    then obtain p m' c' t where sr: "search r n s = Some (p, m', c', t)" by (cases a) auto
    from search_decomp[OF sr] have s: "s = p @ m' @ t" .
    from search_Some_bt[OF sr] obtain ms where b: "bt r n [] (m' @ t) = (c', t) # ms" by blast
    from "1.prems" sr have "(j, m, c) = (i + length p, m', c') \<or>
        (m' \<noteq> [] \<and> (j, m, c) \<in> set (exec_all r n (i + length p + length m') t))"
      by (subst (asm) exec_all.simps) (auto split: if_splits)
    then show ?thesis
    proof
      assume "(j, m, c) = (i + length p, m', c')"
      with s b show ?thesis by auto
    next
      assume a: "m' \<noteq> [] \<and> (j, m, c) \<in> set (exec_all r n (i + length p + length m') t)"
      with "1.IH"[OF sr refl refl refl] have ih: "i + length p + length m' \<le> j"
        "j \<le> i + length p + length m' + length t"
        "\<exists>t' ms. bt r n [] (drop (j - (i + length p + length m')) t) = (c, t') # ms"
        by auto
      have "drop (j - i) s = drop (j - (i + length p + length m')) t"
        using s ih(1) by (simp add: drop_append)
      with ih s show ?thesis by auto
    qed
  qed
qed


text \<open>What one match of \<^verbatim>\<open>nodeRegex\<close> adds to \<^verbatim>\<open>nodes\<close>: nothing, or one node.\<close>

definition coords_of :: "string \<Rightarrow> string list" where
  "coords_of m3 = str_split CHR '','' (str_trim (replace cmRegex [] m3))"

definition node_of_match :: "captures \<Rightarrow> node list" where
  "node_of_match m =
     (case coords_of (capture_text m 3) of
        [c0, c1] \<Rightarrow>
          [\<lparr>n_name = capture_text m 2,
            n_x = num_add (num_mul (parseFloat (str_trim c0)) 50) 400,
            n_y = num_add (num_mul (num_neg (parseFloat (str_trim c1))) 50) 300,
            n_text = replace backslashesRegex [CHR 0x0A] (replace textbfRegex ''$1'' (capture_text m 4)),
            n_styleType = styleType_of (capture_text m 1)\<rparr>]
      | _ \<Rightarrow> [])"

lemma push_node_node_of_match:
  "c = [(4, lb), (3, co), (2, nm), (1, st)] \<Longrightarrow> push_node c ns = Inr (ns @ node_of_match c)"
  by (simp add: push_node_def node_of_match_def coords_of_def capture_text_def Let_def
      split: list.splits)

lemma strip_prefix_Some:
  "strip_prefix p s = Some s' \<longleftrightarrow> s = p @ s'"
  by (induction p s rule: strip_prefix.induct) auto

lemma strip_prefix_dropWhile_le:
  "strip_prefix p (dropWhile P s) = Some s' \<Longrightarrow> length s' \<le> length s"
proof -
  assume "strip_prefix p (dropWhile P s) = Some s'"
  then have "dropWhile P s = p @ s'" by (simp add: strip_prefix_Some)
  then have "length s' \<le> length (dropWhile P s)" by simp
  also have "\<dots> \<le> length s" by (rule length_dropWhile_le)
  finally show ?thesis .
qed

lemma scan_node_shorter:
  assumes "scan_node s = Some (st, nm, co, lb, rest)"
  shows "length rest < length s"
proof -
  from assms obtain s1 s2 s3 s4 s5 s6 s7 s8 where
    1: "strip_prefix (BS @ ''node['') s = Some s1" and
    2: "strip_prefix '']'' (dropWhile (\<lambda>c. c \<noteq> CHR '']'') s1) = Some s2" and
    3: "strip_prefix ''('' (dropWhile isWhiteSpace s2) = Some s3" and
    4: "strip_prefix '')'' (dropWhile (\<lambda>c. c \<noteq> CHR '')'') s3) = Some s4" and
    5: "strip_prefix ''at'' (dropWhile isWhiteSpace s4) = Some s5" and
    6: "strip_prefix ''('' (dropWhile isWhiteSpace s5) = Some s6" and
    7: "strip_prefix '')'' (dropWhile (\<lambda>c. c \<noteq> CHR '')'') s6) = Some s7" and
    8: "strip_prefix ''{'' (dropWhile isWhiteSpace s7) = Some s8" and
    9: "strip_prefix ''}'' (dropWhile (\<lambda>c. c \<noteq> CHR ''}'') s8) = Some rest"
    unfolding scan_node_def by (auto split: Option.bind_splits if_splits)
  from 1 have "length s1 < length s" by (simp add: strip_prefix_Some)
  moreover note strip_prefix_dropWhile_le[OF 2] strip_prefix_dropWhile_le[OF 3]
    strip_prefix_dropWhile_le[OF 4] strip_prefix_dropWhile_le[OF 5] strip_prefix_dropWhile_le[OF 6]
    strip_prefix_dropWhile_le[OF 7] strip_prefix_dropWhile_le[OF 8] strip_prefix_dropWhile_le[OF 9]
  ultimately show ?thesis by linarith
qed

lemma search_nodeRegex:
  assumes "search (rx_body nodeRegex) n s = Some (p, m, c, t)"
  shows "m \<noteq> [] \<and> (\<exists>st nm co lb. c = [(4, lb), (3, co), (2, nm), (1, st)])"
proof -
  from search_Some_bt[OF assms] obtain ms where b: "bt (rx_body nodeRegex) n [] (m @ t) = (c, t) # ms"
    by blast
  then obtain st nm co lb where sc: "scan_node (m @ t) = Some (st, nm, co, lb, t)"
    and c: "c = [(4, lb), (3, co), (2, nm), (1, st)]"
    by (auto simp: bt_nodeRegex split: option.splits)
  from scan_node_shorter[OF sc] have "m \<noteq> []" by auto
  with c show ?thesis by blast
qed

lemma exec_while_nodeRegex:
  "exec_while nodeRegex push_node n s acc
   = Inr (acc @ concat (map (\<lambda>(i, m, c). node_of_match c) (exec_all (rx_body nodeRegex) n i s)))"
proof (induction "length s" arbitrary: s acc i rule: less_induct)
  case less
  show ?case
  proof (cases "search (rx_body nodeRegex) n s")
    case None
    then show ?thesis by (simp add: exec_all.simps exec_while.simps)
  next
    case (Some a)
    then obtain p m c t where sr: "search (rx_body nodeRegex) n s = Some (p, m, c, t)"
      by (cases a) auto
    from search_nodeRegex[OF sr] obtain st nm co lb where m: "m \<noteq> []"
      and c: "c = [(4, lb), (3, co), (2, nm), (1, st)]" by blast
    from search_shorter[OF sr m] have lt: "length t < length s" .
    have pn: "push_node c acc = Inr (acc @ node_of_match c)"
      by (rule push_node_node_of_match[OF c])
    have "exec_while nodeRegex push_node n s acc
          = exec_while nodeRegex push_node n t (acc @ node_of_match c)"
      using sr m pn by (subst exec_while.simps) simp
    also have "\<dots> = Inr ((acc @ node_of_match c) @ concat (map (\<lambda>(i, m, c). node_of_match c)
                   (exec_all (rx_body nodeRegex) n (i + length p + length m) t)))"
      by (rule less[OF lt])
    also have "\<dots> = Inr (acc @ concat (map (\<lambda>(i, m, c). node_of_match c)
                   (exec_all (rx_body nodeRegex) n i s)))"
      using sr m by (subst (2) exec_all.simps) simp
    finally show ?thesis .
  qed
qed


definition scan_arrow :: "string \<Rightarrow> (string \<times> string \<times> string \<times> string) option" where
  "scan_arrow s =
     Option.bind (strip_prefix (BS @ ''draw['') s) (\<lambda>s1.
     Option.bind (strip_prefix '']'' (dropWhile (\<lambda>c. c \<noteq> CHR '']'') s1)) (\<lambda>s2.
     Option.bind (strip_prefix ''('' (dropWhile isWhiteSpace s2)) (\<lambda>s3.
     if takeWhile (\<lambda>c. c \<noteq> CHR '')'') s3 = [] then None else
     Option.bind (strip_prefix '')'' (dropWhile (\<lambda>c. c \<noteq> CHR '')'') s3)) (\<lambda>s4.
     Option.bind (strip_prefix ''--'' (dropWhile isWhiteSpace s4)) (\<lambda>s5.
     Option.bind (strip_prefix ''('' (dropWhile isWhiteSpace s5)) (\<lambda>s6.
     if takeWhile (\<lambda>c. c \<noteq> CHR '')'') s6 = [] then None else
     Option.bind (strip_prefix '')'' (dropWhile (\<lambda>c. c \<noteq> CHR '')'') s6)) (\<lambda>rest.
     Some (takeWhile (\<lambda>c. c \<noteq> CHR '']'') s1, takeWhile (\<lambda>c. c \<noteq> CHR '')'') s3,
           takeWhile (\<lambda>c. c \<noteq> CHR '')'') s6, rest))))))))"

lemma bt_arrowRegex:
  "bt (rx_body arrowRegex) n c s =
     (case scan_arrow s of
        None \<Rightarrow> []
      | Some (style, fromName, toName, rest) \<Rightarrow>
          [((3, toName) # (2, fromName) # (1, style) # c, rest)])"
  unfolding arrowRegex_def scan_arrow_def
  by (simp add: isWhiteSpace_def strip_prefix_Cons2 del: bt.simps(2) split: option.splits Option.bind_splits)

lemma scan_arrow_shorter:
  assumes "scan_arrow s = Some (st, f, t, rest)"
  shows "length rest < length s"
proof -
  from assms obtain s1 s2 s3 s4 s5 s6 where
    1: "strip_prefix (BS @ ''draw['') s = Some s1" and
    2: "strip_prefix '']'' (dropWhile (\<lambda>c. c \<noteq> CHR '']'') s1) = Some s2" and
    3: "strip_prefix ''('' (dropWhile isWhiteSpace s2) = Some s3" and
    4: "strip_prefix '')'' (dropWhile (\<lambda>c. c \<noteq> CHR '')'') s3) = Some s4" and
    5: "strip_prefix ''--'' (dropWhile isWhiteSpace s4) = Some s5" and
    6: "strip_prefix ''('' (dropWhile isWhiteSpace s5) = Some s6" and
    7: "strip_prefix '')'' (dropWhile (\<lambda>c. c \<noteq> CHR '')'') s6) = Some rest"
    unfolding scan_arrow_def by (auto split: Option.bind_splits if_splits)
  from 1 have "length s1 < length s" by (simp add: strip_prefix_Some)
  moreover note strip_prefix_dropWhile_le[OF 2] strip_prefix_dropWhile_le[OF 3]
    strip_prefix_dropWhile_le[OF 4] strip_prefix_dropWhile_le[OF 5] strip_prefix_dropWhile_le[OF 6]
    strip_prefix_dropWhile_le[OF 7]
  ultimately show ?thesis by linarith
qed

text \<open>What one match of \<^verbatim>\<open>arrowRegex\<close> adds to \<^verbatim>\<open>connections\<close>: nothing, or one
  connection.\<close>

definition connection_of_match :: "node list \<Rightarrow> captures \<Rightarrow> connection list" where
  "connection_of_match ns m =
     (if find (\<lambda>n. n_name n = capture_text m 2) ns \<noteq> None \<and>
         find (\<lambda>n. n_name n = capture_text m 3) ns \<noteq> None
      then [\<lparr>c_from = capture_text m 2, c_to = capture_text m 3,
             c_dashed = str_includes (capture_text m 1) ''dashed''\<rparr>]
      else [])"

lemma push_connection_connection_of_match:
  "c = [(3, t), (2, f), (1, st)] \<Longrightarrow>
   push_connection ns c cs = Inr (cs @ connection_of_match ns c)"
  by (simp add: push_connection_def connection_of_match_def capture_text_def)

lemma search_arrowRegex:
  assumes "search (rx_body arrowRegex) n s = Some (p, m, c, t)"
  shows "m \<noteq> [] \<and> (\<exists>st f to. c = [(3, to), (2, f), (1, st)])"
proof -
  from search_Some_bt[OF assms] obtain ms where b: "bt (rx_body arrowRegex) n [] (m @ t) = (c, t) # ms"
    by blast
  then obtain st f to where sc: "scan_arrow (m @ t) = Some (st, f, to, t)"
    and c: "c = [(3, to), (2, f), (1, st)]"
    by (auto simp: bt_arrowRegex split: option.splits)
  from scan_arrow_shorter[OF sc] have "m \<noteq> []" by auto
  with c show ?thesis by blast
qed

lemma exec_while_arrowRegex:
  "exec_while arrowRegex (push_connection ns) n s acc
   = Inr (acc @ concat (map (\<lambda>(i, m, c). connection_of_match ns c) (exec_all (rx_body arrowRegex) n i s)))"
proof (induction "length s" arbitrary: s acc i rule: less_induct)
  case less
  show ?case
  proof (cases "search (rx_body arrowRegex) n s")
    case None
    then show ?thesis by (simp add: exec_all.simps exec_while.simps)
  next
    case (Some a)
    then obtain p m c t where sr: "search (rx_body arrowRegex) n s = Some (p, m, c, t)"
      by (cases a) auto
    from search_arrowRegex[OF sr] obtain st f to where m: "m \<noteq> []"
      and c: "c = [(3, to), (2, f), (1, st)]" by blast
    from search_shorter[OF sr m] have lt: "length t < length s" .
    have pn: "push_connection ns c acc = Inr (acc @ connection_of_match ns c)"
      by (rule push_connection_connection_of_match[OF c])
    have "exec_while arrowRegex (push_connection ns) n s acc
          = exec_while arrowRegex (push_connection ns) n t (acc @ connection_of_match ns c)"
      using sr m pn by (subst exec_while.simps) simp
    also have "\<dots> = Inr ((acc @ connection_of_match ns c) @ concat (map (\<lambda>(i, m, c). connection_of_match ns c)
                   (exec_all (rx_body arrowRegex) n (i + length p + length m) t)))"
      by (rule less[OF lt])
    also have "\<dots> = Inr (acc @ concat (map (\<lambda>(i, m, c). connection_of_match ns c)
                   (exec_all (rx_body arrowRegex) n i s)))"
      using sr m by (subst (2) exec_all.simps) simp
    finally show ?thesis .
  qed
qed

text \<open>The parser as a function of the matches.\<close>

definition parsed_nodes :: "string \<Rightarrow> node list" where
  "parsed_nodes code =
     concat (map (\<lambda>(i, m, c). node_of_match c) (exec_all (rx_body nodeRegex) (length code) 0 code))"

definition parsed_connections :: "string \<Rightarrow> connection list" where
  "parsed_connections code =
     concat (map (\<lambda>(i, m, c). connection_of_match (parsed_nodes code) c)
       (exec_all (rx_body arrowRegex) (length code) 0 code))"

lemma parseTikZCode_matches:
  "parseTikZCode code = Inr (parsed_nodes code, parsed_connections code)"
  by (simp add: parseTikZCode_def parsed_nodes_def parsed_connections_def
      exec_while_nodeRegex[where i = 0] exec_while_arrowRegex[where i = 0])


section \<open>The rewriter's pattern for a plain name\<close>
























lemma show_nat_nonempty: "show_nat n \<noteq> []"
  by (subst show_nat.simps) simp


















section \<open>The scenario of two nodes and one connection\<close>

text \<open>
  The source declares node \<^verbatim>\<open>a\<close> at \<^verbatim>\<open>(-6,3)\<close> with label \<^verbatim>\<open>AWS\<close>, node \<^verbatim>\<open>b\<close> at
  \<^verbatim>\<open>(-1.3,3)\<close> with label \<^verbatim>\<open>GCP\<close>, and a connection from \<^verbatim>\<open>a\<close> to \<^verbatim>\<open>b\<close>, on three
  lines. \<open>scenario_with ca cb\<close> is that source with the two coordinate pairs \<open>ca\<close> and \<open>cb\<close>.
\<close>

definition scenario_with :: "string \<Rightarrow> string \<Rightarrow> string" where
  "scenario_with ca cb =
     BS @ ''node[cloud] (a) at ('' @ ca @ '') {AWS};'' @ [CHR 0x0A] @
     BS @ ''node[cloud] (b) at ('' @ cb @ '') {GCP};'' @ [CHR 0x0A] @
     BS @ ''draw[arrow] (a) -- (b);''"

definition scenario_code :: string where
  "scenario_code = scenario_with ''-6,3'' ''-1.3,3''"

definition scenario_node :: "string \<Rightarrow> rat \<Rightarrow> rat \<Rightarrow> string \<Rightarrow> node" where
  "scenario_node name x y label =
     \<lparr>n_name = name, n_x = Fin x, n_y = Fin y, n_text = label, n_styleType = ''ellipse''\<rparr>"

definition scenario_nodes :: "node list" where
  "scenario_nodes = [scenario_node ''a'' 100 150 ''AWS'', scenario_node ''b'' 335 150 ''GCP'']"

definition scenario_connections :: "connection list" where
  "scenario_connections = [\<lparr>c_from = ''a'', c_to = ''b'', c_dashed = False\<rparr>]"

text \<open>The component's state with the scenario's connection, and the scenario's nodes with
  \<^verbatim>\<open>a\<close> at another pixel position.\<close>

definition scenario_editor :: "string \<Rightarrow> node list \<Rightarrow> editor" where
  "scenario_editor code ns = \<lparr>tikzCode = code, nodes = ns, connections = scenario_connections\<rparr>"

definition scenario_dragged :: "rat \<Rightarrow> rat \<Rightarrow> node list" where
  "scenario_dragged x y = [scenario_node ''a'' x y ''AWS'', scenario_node ''b'' 335 150 ''GCP'']"

text \<open>The pixel position of a node in units, as \<^verbatim>\<open>updateCodeFromNodes\<close> computes it.\<close>

definition unit_position :: "node \<Rightarrow> number \<times> number" where
  "unit_position node =
     (num_div (num_sub (n_x node) 400) 50, num_div (num_neg (num_sub (n_y node) 300)) 50)"

lemma scenario_parse:
  "parseTikZCode scenario_code = Inr (scenario_nodes, scenario_connections)"
  by code_simp


lemma parseTikZCode_total:
  "\<exists>ns cs. parseTikZCode code = Inr (ns, cs)"
  by (simp add: parseTikZCode_matches)

section \<open>Round trip of an unmodified text (C1)\<close>

definition single_node_code :: "string \<Rightarrow> string" where
  "single_node_code clause = BS @ ''node[cloud] '' @ clause @ '' {AWS};''"

text \<open>
  Claim C1 as stated fails. The text \<^verbatim>\<open>\node[cloud] (a) at (-6,3) {AWS};\<close> is parsed in
  full, and rewriting it against the graph parsed from it, with no position changed, returns
  \<^verbatim>\<open>\node[cloud] (a) at (-6.00cm,3.00cm) {AWS};\<close>, which is another text.
\<close>

theorem roundtrip_rewrites_coordinates:
  "parseTikZCode (single_node_code ''(a) at (-6,3)'') = Inr ([scenario_node ''a'' 100 150 ''AWS''], [])
   \<and> updateCodeFromNodes (single_node_code ''(a) at (-6,3)'') [scenario_node ''a'' 100 150 ''AWS'']
       = Inr (single_node_code ''(a) at (-6.00cm,3.00cm)'')
   \<and> single_node_code ''(a) at (-6.00cm,3.00cm)'' \<noteq> single_node_code ''(a) at (-6,3)''"
  by code_simp

(*C1_NEW*)

section \<open>Two declarations of one name (C2)\<close>

definition duplicate_code :: string where
  "duplicate_code = BS @ ''node[s] (n) at (0,0) {A};'' @ BS @ ''node[s] (n) at (5,5) {B};''"

definition duplicate_nodes :: "node list" where
  "duplicate_nodes =
     [\<lparr>n_name = ''n'', n_x = Fin 400, n_y = Fin 300, n_text = ''A'', n_styleType = ''rectangle''\<rparr>,
      \<lparr>n_name = ''n'', n_x = Fin 650, n_y = Fin 50, n_text = ''B'', n_styleType = ''rectangle''\<rparr>]"

lemma duplicate_parse: "parseTikZCode duplicate_code = Inr (duplicate_nodes, [])"
  by code_simp

text \<open>
  Claim C2 as stated fails. Parsing a source that declares \<^verbatim>\<open>n\<close> at (0,0) and then at (5,5)
  yields two nodes named \<^verbatim>\<open>n\<close>, not one: the second declaration is kept, at unit position
  (5,5).
\<close>

theorem duplicate_names_both_kept:
  "parseTikZCode duplicate_code = Inr (duplicate_nodes, [])
   \<and> length (filter (\<lambda>node. n_name node = ''n'') duplicate_nodes) = 2
   \<and> map unit_position duplicate_nodes = [(Fin 0, Fin 0), (Fin 5, Fin 5)]"
  by code_simp

lemma filter_node_of_match:
  "filter (\<lambda>node. n_name node = name) (node_of_match c)
   = (if capture_text c 2 = name then node_of_match c else [])"
  by (auto simp: node_of_match_def split: list.splits)

lemma filter_parsed_nodes:
  "filter (\<lambda>node. n_name node = name) (concat (map (\<lambda>(i, m, c). node_of_match c) ms))
   = concat (map (\<lambda>(i, m, c). node_of_match c) (filter (\<lambda>(i, m, c). capture_text c 2 = name) ms))"
  by (induction ms) (auto simp: filter_node_of_match)

lemma find_first_of_filter:
  "find P xs = (case filter P xs of [] \<Rightarrow> None | x # _ \<Rightarrow> Some x)"
  by (induction xs) auto

text \<open>
  Claim C2, amended. Parsing keeps one node for every declaration that is parsed, duplicates
  included: the nodes with a given name are the nodes of the successive matches of
  \<^verbatim>\<open>nodeRegex\<close> that capture that name, in the order of the declarations, and a lookup by
  name (\<^verbatim>\<open>nodes.find\<close>) returns the first of them.
\<close>

theorem duplicate_names_kept_in_order:
  assumes "parseTikZCode code = Inr (ns, cs)"
  shows "filter (\<lambda>node. n_name node = name) ns
           = concat (map (\<lambda>(i, m, c). node_of_match c)
               (filter (\<lambda>(i, m, c). capture_text c 2 = name)
                  (exec_all (rx_body nodeRegex) (length code) 0 code)))
         \<and> find (\<lambda>node. n_name node = name) ns
           = (case filter (\<lambda>node. n_name node = name) ns of [] \<Rightarrow> None | node # _ \<Rightarrow> Some node)"
proof -
  from assms have "ns = parsed_nodes code" by (simp add: parseTikZCode_matches)
  then show ?thesis
    by (simp add: parsed_nodes_def filter_parsed_nodes find_first_of_filter)
qed

theorem duplicate_names_kept_in_order_witness:
  "parseTikZCode duplicate_code = Inr (duplicate_nodes, [])
   \<and> filter (\<lambda>node. n_name node = ''n'') duplicate_nodes = duplicate_nodes
   \<and> find (\<lambda>node. n_name node = ''n'') duplicate_nodes = Some (hd duplicate_nodes)
   \<and> unit_position (hd duplicate_nodes) = (Fin 0, Fin 0)
   \<and> concat (map (\<lambda>(i, m, c). node_of_match c)
        (filter (\<lambda>(i, m, c). capture_text c 2 = ''n'')
           (exec_all (rx_body nodeRegex) (length duplicate_code) 0 duplicate_code))) = duplicate_nodes"
proof -
  have f: "filter (\<lambda>node. n_name node = ''n'') duplicate_nodes = duplicate_nodes"
    by code_simp
  have h: "find (\<lambda>node. n_name node = ''n'') duplicate_nodes = Some (hd duplicate_nodes)"
    by code_simp
  have u: "unit_position (hd duplicate_nodes) = (Fin 0, Fin 0)"
    by code_simp
  from duplicate_names_kept_in_order[OF duplicate_parse, of "''n''"] f h u duplicate_parse
  show ?thesis by simp
qed

section \<open>The scenario: parse, drag, rewrite (C3)\<close>

text \<open>
  Claim C3 on the code. Parsing the scenario yields exactly 2 nodes and 1 connection, with
  \<^verbatim>\<open>a\<close> at pixel (100,150) and \<^verbatim>\<open>b\<close> at pixel (335,150), and pixel (150,150) is unit
  position (-5,3). But the drag of \<^verbatim>\<open>a\<close> to pixel (150,150) does not move it: the handler
  rewrites the text from the positions that the nodes had before the drag, so the text gets
  \<^verbatim>\<open>(a) at (-6.00cm,3.00cm)\<close> and nowhere \<^verbatim>\<open>-5.00cm\<close>; this text differs from the one
  before, it is parsed again, and after the drag \<^verbatim>\<open>a\<close> is at pixel (100,150), unit position
  (-6,3), as before. The declaration of \<^verbatim>\<open>b\<close> is rewritten as well, to
  \<^verbatim>\<open>(b) at (-1.30cm,3.00cm)\<close>.
\<close>

theorem scenario_drag_leaves_a_in_place:
  "parseTikZCode scenario_code = Inr (scenario_nodes, scenario_connections)
   \<and> length scenario_nodes = 2 \<and> length scenario_connections = 1
   \<and> map (\<lambda>n. (n_name n, n_x n, n_y n)) scenario_nodes
       = [(''a'', Fin 100, Fin 150), (''b'', Fin 335, Fin 150)]
   \<and> unit_position (scenario_node ''a'' 150 150 ''AWS'') = (Fin (- 5), Fin 3)
   \<and> handleNodeDrag (scenario_editor scenario_code scenario_nodes) ''a'' (Fin (- 250), Fin (- 150))
       = Inr (scenario_editor (scenario_with ''-6.00cm,3.00cm'' ''-1.30cm,3.00cm'') scenario_nodes)
   \<and> unit_position (scenario_node ''a'' 100 150 ''AWS'') = (Fin (- 6), Fin 3)
   \<and> \<not> str_includes (scenario_with ''-6.00cm,3.00cm'' ''-1.30cm,3.00cm'') ''-5.00cm''
   \<and> \<not> str_includes (scenario_with ''-6.00cm,3.00cm'' ''-1.30cm,3.00cm'')
          (BS @ ''node[cloud] (b) at (-1.3,3) {GCP};'')"
  by code_simp


section \<open>Parser and rewriter as total functions (C4)\<close>

definition plusplus_code :: string where
  "plusplus_code = BS @ ''node[lang] (c++) at (0,0) {C++};''"

definition plusplus_nodes :: "node list" where
  "plusplus_nodes =
     [\<lparr>n_name = ''c++'', n_x = Fin 400, n_y = Fin 300, n_text = ''C++'', n_styleType = ''rectangle''\<rparr>]"

text \<open>
  Claim C4 on the code: the parser returns a graph for every text (\<open>parseTikZCode_total\<close>),
  but the rewriter does not return a string for every graph. The text
  \<^verbatim>\<open>\node[lang] (c++) at (0,0) {C++};\<close> parses to one node named \<^verbatim>\<open>c++\<close>; the rewriter
  builds the pattern \<^verbatim>\<open>\(c++\)\s*at\s*\([^)]+\)\<close> from the name as it is, and the
  \<^verbatim>\<open>RegExp\<close> constructor throws a \<^verbatim>\<open>SyntaxError\<close> (nothing to repeat), also when the node is
  dragged.
\<close>

theorem rewriter_throws_on_name_with_syntax_characters:
  "(\<exists>ns cs. parseTikZCode code = Inr (ns, cs))
   \<and> parseTikZCode plusplus_code = Inr (plusplus_nodes, [])
   \<and> node_pattern ''c++'' = BS @ ''(c++'' @ BS @ '')'' @ BS @ ''s*at'' @ BS @ ''s*'' @ BS @ ''([^)]+'' @ BS @ '')''
   \<and> new_RegExp (node_pattern ''c++'') = Inl SyntaxError
   \<and> updateCodeFromNodes plusplus_code plusplus_nodes = Inl SyntaxError
   \<and> handleNodeDrag \<lparr>tikzCode = plusplus_code, nodes = plusplus_nodes, connections = []\<rparr>
         ''c++'' (Fin 20, Fin 0) = Inl SyntaxError"
proof -
  have "parseTikZCode plusplus_code = Inr (plusplus_nodes, [])
   \<and> node_pattern ''c++'' = BS @ ''(c++'' @ BS @ '')'' @ BS @ ''s*at'' @ BS @ ''s*'' @ BS @ ''([^)]+'' @ BS @ '')''
   \<and> new_RegExp (node_pattern ''c++'') = Inl SyntaxError
   \<and> updateCodeFromNodes plusplus_code plusplus_nodes = Inl SyntaxError
   \<and> handleNodeDrag \<lparr>tikzCode = plusplus_code, nodes = plusplus_nodes, connections = []\<rparr>
         ''c++'' (Fin 20, Fin 0) = Inl SyntaxError"
    by code_simp
  with parseTikZCode_total[of code] show ?thesis by blast
qed

section \<open>Connections with an undeclared endpoint (C5)\<close>

definition dangling_code :: string where
  "dangling_code =
     BS @ ''node[s] (x) at (0,0) {X};'' @ BS @ ''draw[->] (x) -- (y);'' @ BS @ ''draw[->] (x) -- (x);''"

definition dangling_nodes :: "node list" where
  "dangling_nodes =
     [\<lparr>n_name = ''x'', n_x = Fin 400, n_y = Fin 300, n_text = ''X'', n_styleType = ''rectangle''\<rparr>]"

lemma find_name_iff:
  "find (\<lambda>n. n_name n = name) ns \<noteq> None \<longleftrightarrow> name \<in> n_name ` set ns"
  by (induction ns) auto

lemma connection_of_match_endpoints:
  "c \<in> set (connection_of_match ns m) \<Longrightarrow> c_from c \<in> n_name ` set ns \<and> c_to c \<in> n_name ` set ns"
  unfolding connection_of_match_def find_name_iff by (auto split: if_splits)

text \<open>
  Claim C5. For every text the parser returns a graph, without an error, in which every
  connection has both endpoint names among the names of the nodes. The connections are those of
  the successive matches of \<^verbatim>\<open>arrowRegex\<close>, and a match whose source or target name is not
  the name of a node contributes none.
\<close>

theorem connections_have_declared_endpoints:
  "\<exists>ns cs. parseTikZCode code = Inr (ns, cs)
     \<and> (\<forall>c \<in> set cs. c_from c \<in> n_name ` set ns \<and> c_to c \<in> n_name ` set ns)
     \<and> cs = concat (map (\<lambda>(i, m, c). connection_of_match ns c)
               (exec_all (rx_body arrowRegex) (length code) 0 code))
     \<and> (\<forall>m. capture_text m 2 \<notin> n_name ` set ns \<or> capture_text m 3 \<notin> n_name ` set ns
            \<longrightarrow> connection_of_match ns m = [])"
proof (intro exI conjI)
  show "parseTikZCode code = Inr (parsed_nodes code, parsed_connections code)"
    by (rule parseTikZCode_matches)
  show "\<forall>c \<in> set (parsed_connections code).
          c_from c \<in> n_name ` set (parsed_nodes code) \<and> c_to c \<in> n_name ` set (parsed_nodes code)"
    unfolding parsed_connections_def by (auto dest: connection_of_match_endpoints)
  show "parsed_connections code = concat (map (\<lambda>(i, m, c). connection_of_match (parsed_nodes code) c)
               (exec_all (rx_body arrowRegex) (length code) 0 code))"
    by (simp add: parsed_connections_def)
  show "\<forall>m. capture_text m 2 \<notin> n_name ` set (parsed_nodes code)
             \<or> capture_text m 3 \<notin> n_name ` set (parsed_nodes code)
            \<longrightarrow> connection_of_match (parsed_nodes code) m = []"
    unfolding connection_of_match_def find_name_iff by auto
qed

theorem connections_have_declared_endpoints_witness:
  "parseTikZCode dangling_code
     = Inr (dangling_nodes, [\<lparr>c_from = ''x'', c_to = ''x'', c_dashed = False\<rparr>])
   \<and> ''x'' \<in> n_name ` set dangling_nodes
   \<and> ''y'' \<notin> n_name ` set dangling_nodes
   \<and> map (\<lambda>(i, m, c). (capture_text c 2, capture_text c 3))
        (exec_all (rx_body arrowRegex) (length dangling_code) 0 dangling_code)
       = [(''x'', ''y''), (''x'', ''x'')]
   \<and> connection_of_match dangling_nodes [(3, ''y''), (2, ''x''), (1, ''->'')] = []"
proof -
  have p: "parseTikZCode dangling_code
     = Inr (dangling_nodes, [\<lparr>c_from = ''x'', c_to = ''x'', c_dashed = False\<rparr>])"
    by code_simp
  have y: "''y'' \<notin> n_name ` set dangling_nodes"
    by (simp add: dangling_nodes_def)
  have e: "map (\<lambda>(i, m, c). (capture_text c 2, capture_text c 3))
        (exec_all (rx_body arrowRegex) (length dangling_code) 0 dangling_code)
       = [(''x'', ''y''), (''x'', ''x'')]"
    by code_simp
  from connections_have_declared_endpoints[of dangling_code] obtain ns cs where
    q: "parseTikZCode dangling_code = Inr (ns, cs)"
    and ends: "\<forall>c \<in> set cs. c_from c \<in> n_name ` set ns \<and> c_to c \<in> n_name ` set ns"
    and drop: "\<forall>m. capture_text m 2 \<notin> n_name ` set ns \<or> capture_text m 3 \<notin> n_name ` set ns
            \<longrightarrow> connection_of_match ns m = []"
    by blast
  from p q have ns: "ns = dangling_nodes" and cs: "cs = [\<lparr>c_from = ''x'', c_to = ''x'', c_dashed = False\<rparr>]"
    by simp_all
  from ends ns cs have x: "''x'' \<in> n_name ` set dangling_nodes" by simp
  have "capture_text [(3, ''y''), (2, ''x''), (1, ''->'')] 3 = ''y''"
    by (simp add: capture_text_def)
  with drop ns y have d: "connection_of_match dangling_nodes [(3, ''y''), (2, ''x''), (1, ''->'')] = []"
    by metis
  from p x y e d show ?thesis by blast
qed


section \<open>The shape class of a node (C6)\<close>

text \<open>
  Claim C6. The style type of a declaration is decided by the first test that succeeds, in the
  order ellipse (\<^verbatim>\<open>cloud\<close> or \<^verbatim>\<open>ellipse\<close>), cylinder (\<^verbatim>\<open>db\<close> or \<^verbatim>\<open>cylinder\<close>), dashed
  rectangle (\<^verbatim>\<open>k8s\<close>), highlighted rectangle (\<^verbatim>\<open>api\<close>), and the plain rectangle when none
  succeeds; a style that holds both \<^verbatim>\<open>cloud\<close> and \<^verbatim>\<open>api\<close> gives the ellipse. The node
  that the parser adds for a match carries the style type of the match's style.
\<close>

theorem styleType_first_match_priority:
  "(str_includes style ''cloud'' \<or> str_includes style ''ellipse''
      \<longrightarrow> styleType_of style = ''ellipse'')
   \<and> (\<not> (str_includes style ''cloud'' \<or> str_includes style ''ellipse'')
       \<and> (str_includes style ''db'' \<or> str_includes style ''cylinder'')
      \<longrightarrow> styleType_of style = ''cylinder'')
   \<and> (\<not> (str_includes style ''cloud'' \<or> str_includes style ''ellipse'')
       \<and> \<not> (str_includes style ''db'' \<or> str_includes style ''cylinder'')
       \<and> str_includes style ''k8s''
      \<longrightarrow> styleType_of style = ''dashed_rect'')
   \<and> (\<not> (str_includes style ''cloud'' \<or> str_includes style ''ellipse'')
       \<and> \<not> (str_includes style ''db'' \<or> str_includes style ''cylinder'')
       \<and> \<not> str_includes style ''k8s'' \<and> str_includes style ''api''
      \<longrightarrow> styleType_of style = ''yellow_rect'')
   \<and> (\<not> (str_includes style ''cloud'' \<or> str_includes style ''ellipse'')
       \<and> \<not> (str_includes style ''db'' \<or> str_includes style ''cylinder'')
       \<and> \<not> str_includes style ''k8s'' \<and> \<not> str_includes style ''api''
      \<longrightarrow> styleType_of style = ''rectangle'')
   \<and> (str_includes style ''cloud'' \<and> str_includes style ''api''
      \<longrightarrow> styleType_of style = ''ellipse'')
   \<and> (\<exists>added. push_node [(4, label), (3, coords), (2, name), (1, style)] ns = Inr (ns @ added)
         \<and> (\<forall>node \<in> set added. n_styleType node = styleType_of style))"
proof -
  have "push_node [(4, label), (3, coords), (2, name), (1, style)] ns
        = Inr (ns @ node_of_match [(4, label), (3, coords), (2, name), (1, style)])"
    by (rule push_node_node_of_match) simp
  moreover have "\<forall>node \<in> set (node_of_match [(4, label), (3, coords), (2, name), (1, style)]).
      n_styleType node = styleType_of style"
    by (auto simp: node_of_match_def capture_text_def split: list.splits)
  ultimately show ?thesis
    by (simp add: styleType_of_def)
qed

theorem styleType_first_match_priority_witness:
  "str_includes ''cloud, api'' ''cloud'' \<and> str_includes ''cloud, api'' ''api''
   \<and> styleType_of ''cloud, api'' = ''ellipse''
   \<and> parseTikZCode (BS @ ''node[cloud, api] (g) at (1,2) {G};'')
       = Inr ([\<lparr>n_name = ''g'', n_x = Fin 450, n_y = Fin 200, n_text = ''G'',
                 n_styleType = ''ellipse''\<rparr>], [])"
proof -
  have c: "str_includes ''cloud, api'' ''cloud''" by code_simp
  have a: "str_includes ''cloud, api'' ''api''" by code_simp
  have p: "parseTikZCode (BS @ ''node[cloud, api] (g) at (1,2) {G};'')
       = Inr ([\<lparr>n_name = ''g'', n_x = Fin 450, n_y = Fin 200, n_text = ''G'',
                 n_styleType = ''ellipse''\<rparr>], [])"
    by code_simp
  from styleType_first_match_priority[of "''cloud, api''"] c a
  have "styleType_of ''cloud, api'' = ''ellipse''" by blast
  with c a p show ?thesis by blast
qed

section \<open>A drag and the parser (C7)\<close>




section \<open>What the rewriter leaves alone (C8)\<close>







section \<open>Two drags of one node (C9)\<close>

text \<open>
  Claim C9 on the code. The text is the scenario in the rewriter's own format, so that the
  first drag leaves it as it is. The node \<^verbatim>\<open>a\<close> is dragged to pixel (150,150) and then to
  pixel (200,150). The second call of \<^verbatim>\<open>updateCodeFromNodes\<close> reads the \<^verbatim>\<open>nodes\<close> of the
  render before the second drag, writes the position of the first drag into the text, and the
  effect on \<^verbatim>\<open>tikzCode\<close> parses that text: the node ends at pixel (150,150), the target of the
  first drag, and the text reads \<^verbatim>\<open>-5.00cm,3.00cm\<close>. A single drag to pixel (200,150) from
  the same state ends at pixel (200,150).
\<close>

theorem second_drag_ends_at_first_target:
  "handleNodeDrag (scenario_editor (scenario_with ''-6.00cm,3.00cm'' ''-1.30cm,3.00cm'') scenario_nodes)
       ''a'' (Fin (- 250), Fin (- 150))
     = Inr (scenario_editor (scenario_with ''-6.00cm,3.00cm'' ''-1.30cm,3.00cm'') (scenario_dragged 150 150))
   \<and> handleNodeDrag (scenario_editor (scenario_with ''-6.00cm,3.00cm'' ''-1.30cm,3.00cm'') (scenario_dragged 150 150))
       ''a'' (Fin (- 200), Fin (- 150))
     = Inr (scenario_editor (scenario_with ''-5.00cm,3.00cm'' ''-1.30cm,3.00cm'') (scenario_dragged 150 150))
   \<and> handleNodeDrag (scenario_editor (scenario_with ''-6.00cm,3.00cm'' ''-1.30cm,3.00cm'') scenario_nodes)
       ''a'' (Fin (- 200), Fin (- 150))
     = Inr (scenario_editor (scenario_with ''-6.00cm,3.00cm'' ''-1.30cm,3.00cm'') (scenario_dragged 200 150))
   \<and> scenario_dragged 150 150 \<noteq> scenario_dragged 200 150
   \<and> drag_nodes ''a'' (Fin (- 200), Fin (- 150)) (drag_nodes ''a'' (Fin (- 250), Fin (- 150)) scenario_nodes)
     = scenario_dragged 200 150"
  by code_simp


section \<open>Declarations that add no node (C10)\<close>

lemma strip_prefix_None_iff:
  "strip_prefix p s = None \<longleftrightarrow> \<not> startsWith s p"
  by (induction p s rule: strip_prefix.induct) auto

lemma dropWhile_until:
  "d \<notin> set xs \<Longrightarrow> dropWhile (\<lambda>c. c \<noteq> d) (xs @ d # ys) = d # ys"
  by (induction xs) auto

lemma takeWhile_until:
  "d \<notin> set xs \<Longrightarrow> takeWhile (\<lambda>c. c \<noteq> d) (xs @ d # ys) = xs"
  by (induction xs) auto

lemma dropWhile_spaces:
  "list_all isWhiteSpace w \<Longrightarrow> \<not> isWhiteSpace d \<Longrightarrow> dropWhile isWhiteSpace (w @ d # ys) = d # ys"
  by (induction w) auto

lemma scan_node_without_at:
  assumes "CHR '']'' \<notin> set style" and "list_all isWhiteSpace w" and "CHR '')'' \<notin> set name"
    and "\<not> startsWith (dropWhile isWhiteSpace rest) ''at''"
  shows "scan_node (BS @ ''node['' @ style @ '']'' @ w @ ''('' @ name @ '')'' @ rest) = None"
proof -
  have 1: "strip_prefix (BS @ ''node['') (BS @ ''node['' @ style @ '']'' @ w @ ''('' @ name @ '')'' @ rest)
           = Some (style @ '']'' @ w @ ''('' @ name @ '')'' @ rest)"
    unfolding strip_prefix_Some by simp
  have 2: "dropWhile (\<lambda>c. c \<noteq> CHR '']'') (style @ '']'' @ w @ ''('' @ name @ '')'' @ rest)
           = '']'' @ w @ ''('' @ name @ '')'' @ rest"
    using dropWhile_until[OF assms(1)] by simp
  have 3: "dropWhile isWhiteSpace (w @ ''('' @ name @ '')'' @ rest) = ''('' @ name @ '')'' @ rest"
    using dropWhile_spaces[OF assms(2), of "CHR ''(''"] by (simp add: isWhiteSpace_def)
  have 4: "takeWhile (\<lambda>c. c \<noteq> CHR '')'') (name @ '')'' @ rest) = name"
    using takeWhile_until[OF assms(3)] by simp
  have 5: "dropWhile (\<lambda>c. c \<noteq> CHR '')'') (name @ '')'' @ rest) = '')'' @ rest"
    using dropWhile_until[OF assms(3)] by simp
  have 6: "strip_prefix ''at'' (dropWhile isWhiteSpace rest) = None"
    using assms(4) by (rule iffD2[OF strip_prefix_None_iff])
  show ?thesis
    using 1 2 3 4 5 6 unfolding scan_node_def by simp
qed


lemma node_of_match_coords:
  "(length (coords_of (capture_text c 3)) \<noteq> 2 \<longrightarrow> node_of_match c = [])
   \<and> (length (coords_of (capture_text c 3)) = 2
      \<longrightarrow> length (node_of_match c) = 1 \<and> n_name (hd (node_of_match c)) = capture_text c 2)"
  by (auto simp: node_of_match_def split: list.splits)

lemma no_match_at_declaration_without_at:
  assumes "code = pre @ BS @ ''node['' @ style @ '']'' @ w @ ''('' @ name @ '')'' @ rest"
    and "CHR '']'' \<notin> set style" and "list_all isWhiteSpace w" and "CHR '')'' \<notin> set name"
    and "\<not> startsWith (dropWhile isWhiteSpace rest) ''at''"
    and "(i, m, c) \<in> set (exec_all (rx_body nodeRegex) n 0 code)"
  shows "i \<noteq> length pre"
proof
  assume i: "i = length pre"
  from exec_all_index[OF assms(6)] obtain t ms where
    "bt (rx_body nodeRegex) n [] (drop (i - 0) code) = (c, t) # ms" by blast
  moreover have "drop (i - 0) code = BS @ ''node['' @ style @ '']'' @ w @ ''('' @ name @ '')'' @ rest"
    using i assms(1) by simp
  ultimately show False
    using scan_node_without_at[OF assms(2-5)] by (simp add: bt_nodeRegex)
qed

definition mixed_code :: string where
  "mixed_code =
     BS @ ''node[k8s] (k) at (1,2,3) {K};'' @ BS @ ''node[cloud, above=of k] (o) {O};'' @
     BS @ ''node[api] (g) at (1,2) {G};''"

text \<open>
  Claim C10. For every text the parser returns a graph whose nodes are those of the successive
  matches of \<^verbatim>\<open>nodeRegex\<close>, in order. A match whose coordinate text, with \<^verbatim>\<open>cm\<close> removed
  and trimmed, does not split at commas into exactly two components adds no node, and the scan
  goes on with the matches after it; a match with two components adds one node, with the
  captured name. A declaration \<^verbatim>\<open>\node[style] (name)\<close> that does not go on with \<^verbatim>\<open>at\<close>
  after optional white space is no match: no match starts where it starts.
\<close>

theorem nodes_only_from_matches_with_two_coordinates:
  "\<exists>ns cs. parseTikZCode code = Inr (ns, cs)
     \<and> ns = concat (map (\<lambda>(i, m, c). node_of_match c)
               (exec_all (rx_body nodeRegex) (length code) 0 code))
     \<and> (\<forall>c. length (coords_of (capture_text c 3)) \<noteq> 2 \<longrightarrow> node_of_match c = [])
     \<and> (\<forall>c. length (coords_of (capture_text c 3)) = 2
            \<longrightarrow> length (node_of_match c) = 1 \<and> n_name (hd (node_of_match c)) = capture_text c 2)
     \<and> (\<forall>pre style w name rest.
           code = pre @ BS @ ''node['' @ style @ '']'' @ w @ ''('' @ name @ '')'' @ rest
           \<and> CHR '']'' \<notin> set style \<and> list_all isWhiteSpace w \<and> CHR '')'' \<notin> set name
           \<and> \<not> startsWith (dropWhile isWhiteSpace rest) ''at''
           \<longrightarrow> length pre \<notin> fst ` set (exec_all (rx_body nodeRegex) (length code) 0 code))"
proof (intro exI conjI allI impI)
  show "parseTikZCode code = Inr (parsed_nodes code, parsed_connections code)"
    by (rule parseTikZCode_matches)
  show "parsed_nodes code = concat (map (\<lambda>(i, m, c). node_of_match c)
               (exec_all (rx_body nodeRegex) (length code) 0 code))"
    by (simp add: parsed_nodes_def)
next
  fix c assume "length (coords_of (capture_text c 3)) \<noteq> 2"
  then show "node_of_match c = []" using node_of_match_coords[of c] by blast
next
  fix c assume "length (coords_of (capture_text c 3)) = 2"
  then show "length (node_of_match c) = 1" using node_of_match_coords[of c] by blast
next
  fix c assume "length (coords_of (capture_text c 3)) = 2"
  then show "n_name (hd (node_of_match c)) = capture_text c 2"
    using node_of_match_coords[of c] by blast
next
  fix pre style w name rest
  assume a: "code = pre @ BS @ ''node['' @ style @ '']'' @ w @ ''('' @ name @ '')'' @ rest
           \<and> CHR '']'' \<notin> set style \<and> list_all isWhiteSpace w \<and> CHR '')'' \<notin> set name
           \<and> \<not> startsWith (dropWhile isWhiteSpace rest) ''at''"
  show "length pre \<notin> fst ` set (exec_all (rx_body nodeRegex) (length code) 0 code)"
  proof
    assume "length pre \<in> fst ` set (exec_all (rx_body nodeRegex) (length code) 0 code)"
    then obtain m c where "(length pre, m, c) \<in> set (exec_all (rx_body nodeRegex) (length code) 0 code)"
      by force
    from no_match_at_declaration_without_at[OF _ _ _ _ _ this, of pre style w name rest] a
    show False by blast
  qed
qed

theorem nodes_only_from_matches_with_two_coordinates_witness:
  "parseTikZCode mixed_code
     = Inr ([\<lparr>n_name = ''g'', n_x = Fin 450, n_y = Fin 200, n_text = ''G'',
               n_styleType = ''yellow_rect''\<rparr>], [])
   \<and> map (\<lambda>(i, m, c). (i, capture_text c 2, coords_of (capture_text c 3)))
        (exec_all (rx_body nodeRegex) (length mixed_code) 0 mixed_code)
       = [(0, ''k'', [''1'', ''2'', ''3'']), (63, ''g'', [''1'', ''2''])]
   \<and> node_of_match [(4, ''K''), (3, ''1,2,3''), (2, ''k''), (1, ''k8s'')] = []
   \<and> length (BS @ ''node[k8s] (k) at (1,2,3) {K};'') = 30
   \<and> 30 \<notin> fst ` set (exec_all (rx_body nodeRegex) (length mixed_code) 0 mixed_code)"
proof -
  let ?pre = "BS @ ''node[k8s] (k) at (1,2,3) {K};''"
  let ?rest = "'' {O};'' @ BS @ ''node[api] (g) at (1,2) {G};''"
  have p: "parseTikZCode mixed_code
     = Inr ([\<lparr>n_name = ''g'', n_x = Fin 450, n_y = Fin 200, n_text = ''G'',
               n_styleType = ''yellow_rect''\<rparr>], [])"
    by code_simp
  have e: "map (\<lambda>(i, m, c). (i, capture_text c 2, coords_of (capture_text c 3)))
        (exec_all (rx_body nodeRegex) (length mixed_code) 0 mixed_code)
       = [(0, ''k'', [''1'', ''2'', ''3'']), (63, ''g'', [''1'', ''2''])]"
    by code_simp
  have l3: "length (coords_of (capture_text [(4, ''K''), (3, ''1,2,3''), (2, ''k''), (1, ''k8s'')] 3)) \<noteq> 2"
    by code_simp
  have len: "length ?pre = 30" by simp
  have shape: "mixed_code = ?pre @ BS @ ''node['' @ ''cloud, above=of k'' @ '']'' @ '' '' @ ''('' @ ''o'' @ '')'' @ ?rest"
    by (simp add: mixed_code_def)
  have conds: "CHR '']'' \<notin> set ''cloud, above=of k'' \<and> list_all isWhiteSpace '' ''
      \<and> CHR '')'' \<notin> set ''o'' \<and> \<not> startsWith (dropWhile isWhiteSpace ?rest) ''at''"
    by code_simp
  from nodes_only_from_matches_with_two_coordinates[of mixed_code] obtain ns cs where
    skip: "\<forall>c. length (coords_of (capture_text c 3)) \<noteq> 2 \<longrightarrow> node_of_match c = []"
    and rel: "\<forall>pre style w name rest.
           mixed_code = pre @ BS @ ''node['' @ style @ '']'' @ w @ ''('' @ name @ '')'' @ rest
           \<and> CHR '']'' \<notin> set style \<and> list_all isWhiteSpace w \<and> CHR '')'' \<notin> set name
           \<and> \<not> startsWith (dropWhile isWhiteSpace rest) ''at''
           \<longrightarrow> length pre \<notin> fst ` set (exec_all (rx_body nodeRegex) (length mixed_code) 0 mixed_code)"
    by blast
  from skip l3 have n: "node_of_match [(4, ''K''), (3, ''1,2,3''), (2, ''k''), (1, ''k8s'')] = []"
    by blast
  from rel shape conds
  have nin: "length ?pre \<notin> fst ` set (exec_all (rx_body nodeRegex) (length mixed_code) 0 mixed_code)"
    by blast
  have i: "30 \<notin> fst ` set (exec_all (rx_body nodeRegex) (length mixed_code) 0 mixed_code)"
    using nin unfolding len by assumption
  from p e n len i show ?thesis by blast
qed

end
